theory Spec2Isabelle
  imports Complex_Main "HOL-Library.Log_Nat"
begin

section \<open>Values and records shared by the pipeline\<close>

text \<open>
  \<open>extracted_data\<close> is whatever \<open>json.loads\<close> returned: Python's \<open>None\<close>, a bool,
  an int, a float, a str, a list or a dict. A dict is kept as the list of its
  \<open>items()\<close> in insertion order. Floats are modelled by real numbers; no function
  below inspects the payload of a scalar except for its truth value.
\<close>

datatype json =
    JNull
  | JBool bool
  | JInt int
  | JFloat real
  | JStr string
  | JList "json list"
  | JDict "(string \<times> json) list"

text \<open>\<open>isinstance(value, (dict, list))\<close>\<close>

fun is_dict_or_list :: "json \<Rightarrow> bool" where
  "is_dict_or_list (JList _) = True"
| "is_dict_or_list (JDict _) = True"
| "is_dict_or_list _ = False"

text \<open>Python's truth value of an object, as tested by \<open>if result.extracted_data:\<close>.\<close>

fun truthy :: "json \<Rightarrow> bool" where
  "truthy JNull = False"
| "truthy (JBool b) = b"
| "truthy (JInt n) = (n \<noteq> 0)"
| "truthy (JFloat x) = (x \<noteq> 0)"
| "truthy (JStr s) = (s \<noteq> [])"
| "truthy (JList xs) = (xs \<noteq> [])"
| "truthy (JDict kvs) = (kvs \<noteq> [])"

text \<open>
  The truth value of an \<open>Optional[str]\<close> such as \<open>error\<close>: \<open>None\<close> and the empty
  string are both false.
\<close>

fun truthy_str :: "string option \<Rightarrow> bool" where
  "truthy_str None = False"
| "truthy_str (Some s) = (s \<noteq> [])"

text \<open>
  The dataclass \<open>ExtractionResult\<close> of \<open>extractors.py\<close>, with its defaults in
  \<open>ExtractionResult_default\<close>. \<open>extracted_data = JNull\<close> is Python's \<open>None\<close>.
\<close>

record ExtractionResult =
  model :: string
  query_type :: int
  query_name :: string
  extracted_data :: json
  raw_response :: string
  prompt_tokens :: int
  completion_tokens :: int
  total_tokens :: int
  extraction_time :: real
  cost_usd :: real
  error :: "string option"
  metadata :: "(string \<times> string) list"

definition ExtractionResult_default :: "string \<Rightarrow> int \<Rightarrow> string \<Rightarrow> ExtractionResult" where
  "ExtractionResult_default m qt qn =
     \<lparr> model = m, query_type = qt, query_name = qn, extracted_data = JNull,
       raw_response = [], prompt_tokens = 0, completion_tokens = 0, total_tokens = 0,
       extraction_time = 0, cost_usd = 0, error = None, metadata = [] \<rparr>"

section \<open>Result comparator (\<open>compare.py\<close>)\<close>

subsection \<open>Field counting\<close>

text \<open>
  \<open>ResultComparator._count_fields\<close>. The two \<open>for\<close> loops add to the local
  \<open>count\<close>, which starts at 0; a value that is neither \<open>None\<close>, a dict nor a list
  falls through both branches and returns that 0. The \<open>path\<close> argument is only
  built, never read, and is left out.
\<close>

fun count_fields :: "json \<Rightarrow> nat" where
  "count_fields JNull = 0"
| "count_fields (JDict kvs) =
     fold (\<lambda>kv count.
             if snd kv \<noteq> JNull then
               (if is_dict_or_list (snd kv) then count + count_fields (snd kv)
                else count + 1)
             else count)
          kvs 0"
| "count_fields (JList items) =
     fold (\<lambda>item count. count + count_fields item) items 0"
| "count_fields _ = 0"

text \<open>
  The count as the specification words it: a non-null scalar is 1 wherever it
  stands, null is 0, a mapping sums over its non-null values, a sequence sums over
  its elements.
\<close>

fun spec_count_fields :: "json \<Rightarrow> nat" where
  "spec_count_fields JNull = 0"
| "spec_count_fields (JDict kvs) =
     sum_list (map (\<lambda>kv. spec_count_fields (snd kv)) (filter (\<lambda>kv. snd kv \<noteq> JNull) kvs))"
| "spec_count_fields (JList items) = sum_list (map spec_count_fields items)"
| "spec_count_fields _ = 1"

text \<open>
  The count the code computes, as a recursive definition: only a non-null scalar
  that is the value of a mapping entry counts 1; a scalar at top level or as an
  element of a sequence counts 0.
\<close>

fun keyed_count_fields :: "json \<Rightarrow> nat" where
  "keyed_count_fields (JDict kvs) =
     sum_list (map (\<lambda>kv. if is_dict_or_list (snd kv) then keyed_count_fields (snd kv) else 1)
                   (filter (\<lambda>kv. snd kv \<noteq> JNull) kvs))"
| "keyed_count_fields (JList items) = sum_list (map keyed_count_fields items)"
| "keyed_count_fields _ = 0"

definition example_data :: json where
  "example_data =
     JDict [(''a'', JInt 1), (''b'', JNull), (''c'', JDict [(''d'', JInt 2)])]"

subsection \<open>Metrics\<close>

record ComparisonMetrics =
  cm_model :: string
  cm_query_type :: int
  fields_extracted :: nat
  total_fields_possible :: int
  completeness_score :: real
  cm_extraction_time :: real
  cm_total_tokens :: int
  cm_cost_usd :: real
  cm_error :: "string option"

text \<open>\<open>_get_expected_field_counts\<close> and \<open>dict.get(key, default)\<close>.\<close>

definition get_expected_field_counts :: "(int \<times> int) list" where
  "get_expected_field_counts = [(1, 15), (2, 50), (3, 40), (4, 60), (5, 70)]"

definition dict_get :: "('k \<times> 'v) list \<Rightarrow> 'k \<Rightarrow> 'v \<Rightarrow> 'v" where
  "dict_get d k dflt = (case map_of d k of None \<Rightarrow> dflt | Some v \<Rightarrow> v)"

text \<open>The body of the loop of \<open>calculate_metrics\<close>, for one result.\<close>

definition metrics_of :: "ExtractionResult \<Rightarrow> ComparisonMetrics" where
  "metrics_of result =
     (let fields = (if truthy (extracted_data result)
                    then count_fields (extracted_data result) else 0);
          total_fields = dict_get get_expected_field_counts (query_type result) 50;
          completeness = (if total_fields > 0
                          then min (real fields / real_of_int total_fields) 1 else 0)
      in \<lparr> cm_model = model result, cm_query_type = query_type result,
           fields_extracted = fields, total_fields_possible = total_fields,
           completeness_score = completeness,
           cm_extraction_time = extraction_time result,
           cm_total_tokens = total_tokens result, cm_cost_usd = cost_usd result,
           cm_error = error result \<rparr>)"

fun calculate_metrics :: "ExtractionResult list \<Rightarrow> ComparisonMetrics list" where
  "calculate_metrics [] = []"
| "calculate_metrics (result # results) = metrics_of result # calculate_metrics results"

text \<open>
  The invariant the data model of the specification gives an \<open>ExtractionResult\<close>:
  when \<open>error\<close> is set, \<open>extracted_data\<close> is absent and the token counts are zero.
  It is what the two \<open>except\<close> clauses of each extractor build.
\<close>

definition ExtractionResult_invariant :: "ExtractionResult \<Rightarrow> bool" where
  "ExtractionResult_invariant r =
     (error r \<noteq> None \<longrightarrow>
        extracted_data r = JNull \<and> prompt_tokens r = 0 \<and> completion_tokens r = 0
        \<and> total_tokens r = 0)"

subsection \<open>Exceptions\<close>

text \<open>\<open>str(n)\<close> of a natural number.\<close>

definition digit_char :: "nat \<Rightarrow> char" where
  "digit_char d = ''0123456789'' ! d"

fun str_nat :: "nat \<Rightarrow> string" where
  "str_nat n = (if n < 10 then [digit_char n] else str_nat (n div 10) @ [digit_char (n mod 10)])"

declare str_nat.simps [simp del]

text \<open>
  The exceptions the modelled code raises or catches, each with the string
  \<open>str(e)\<close> gives. An \<open>OSError\<close> raised by the operating system carries its
  error number, its message and the file name, and prints as
  \<open>[Errno n] message: 'name'\<close>. \<open>OtherException\<close> stands for any other subclass
  of \<open>Exception\<close>.
\<close>

datatype py_exception =
    ValueError string
  | ZeroDivisionError string
  | OverflowError string
  | RuntimeError string
  | ImportError string
  | TimeoutError string
  | SDKError string
  | OSError nat string string
  | OtherException string

fun exc_str :: "py_exception \<Rightarrow> string" where
  "exc_str (ValueError s) = s"
| "exc_str (ZeroDivisionError s) = s"
| "exc_str (OverflowError s) = s"
| "exc_str (RuntimeError s) = s"
| "exc_str (ImportError s) = s"
| "exc_str (TimeoutError s) = s"
| "exc_str (SDKError s) = s"
| "exc_str (OSError errno strerror filename) =
     ''[Errno '' @ str_nat errno @ ''] '' @ strerror @ '': '' @ [CHR 0x27] @ filename @ [CHR 0x27]"
| "exc_str (OtherException s) = s"

text \<open>\<open>x / n\<close> with an integer divisor: Python raises on a zero divisor.\<close>

definition py_truediv :: "real \<Rightarrow> nat \<Rightarrow> py_exception + real" where
  "py_truediv x n =
     (if n = 0 then Inl (ZeroDivisionError ''division by zero'') else Inr (x / real n))"

subsection \<open>Summary statistics\<close>

text \<open>\<open>str.split(sep)\<close> for a one-character separator, scanning left to right.\<close>

fun split_from :: "char \<Rightarrow> string \<Rightarrow> string \<Rightarrow> string list" where
  "split_from sep cur [] = [cur]"
| "split_from sep cur (x # xs) =
     (if x = sep then cur # split_from sep [] xs else split_from sep (cur @ [x]) xs)"

definition split_char :: "char \<Rightarrow> string \<Rightarrow> string list" where
  "split_char sep s = split_from sep [] s"

text \<open>\<open>m.model.split('-')[-1] if '-' in m.model else m.model\<close>\<close>

definition model_key :: "string \<Rightarrow> string" where
  "model_key m = (if CHR ''-'' \<in> set m then last (split_char CHR ''-'' m) else m)"

text \<open>
  A dict with list values, in insertion order: \<open>if k not in d: d[k] = []\<close> followed
  by \<open>d[k].append(v)\<close>.
\<close>

definition dict_append :: "('k \<times> 'v list) list \<Rightarrow> 'k \<Rightarrow> 'v \<Rightarrow> ('k \<times> 'v list) list" where
  "dict_append d k v =
     (let d' = (if k \<notin> set (map fst d) then d @ [(k, [])] else d)
      in map (\<lambda>kl. if fst kl = k then (fst kl, snd kl @ [v]) else kl) d')"

text \<open>\<open>d[k] = v\<close>: a new key goes last, an old key keeps its place.\<close>

definition dict_set :: "('k \<times> 'v) list \<Rightarrow> 'k \<Rightarrow> 'v \<Rightarrow> ('k \<times> 'v) list" where
  "dict_set d k v =
     (if k \<in> set (map fst d) then map (\<lambda>kv. if fst kv = k then (k, v) else kv) d
      else d @ [(k, v)])"

record model_stats =
  avg_completeness :: real
  avg_time :: real
  stat_total_tokens :: int
  total_cost :: real
  successful_extractions :: int
  failed_extractions :: int

text \<open>The dict literal stored in \<open>summary[model]\<close>; its two divisions may raise.\<close>

definition stats_entry ::
  "ComparisonMetrics list \<Rightarrow> ComparisonMetrics list \<Rightarrow> py_exception + model_stats" where
  "stats_entry successful model_metrics =
     (case py_truediv (sum_list (map completeness_score successful)) (length successful) of
        Inl e \<Rightarrow> Inl e
      | Inr ac \<Rightarrow>
        (case py_truediv (sum_list (map cm_extraction_time successful)) (length successful) of
           Inl e \<Rightarrow> Inl e
         | Inr tm \<Rightarrow>
           Inr \<lparr> avg_completeness = ac, avg_time = tm,
                 stat_total_tokens = sum_list (map cm_total_tokens successful),
                 total_cost = sum_list (map cm_cost_usd successful),
                 successful_extractions = int (length successful),
                 failed_extractions = int (length model_metrics) - int (length successful) \<rparr>))"

text \<open>The loop \<open>for model, model_metrics in by_model.items()\<close>.\<close>

fun summarise ::
  "(string \<times> ComparisonMetrics list) list \<Rightarrow> (string \<times> model_stats) list
   \<Rightarrow> py_exception + (string \<times> model_stats) list" where
  "summarise [] summary = Inr summary"
| "summarise (entry # rest) summary =
     (let successful = filter (\<lambda>m. \<not> truthy_str (cm_error m)) (snd entry)
      in if successful \<noteq> [] then
           (case stats_entry successful (snd entry) of
              Inl e \<Rightarrow> Inl e
            | Inr st \<Rightarrow> summarise rest (dict_set summary (fst entry) st))
         else summarise rest summary)"

definition group_by_model ::
  "ComparisonMetrics list \<Rightarrow> (string \<times> ComparisonMetrics list) list" where
  "group_by_model metrics =
     fold (\<lambda>m by_model. dict_append by_model (model_key (cm_model m)) m) metrics []"

definition generate_summary_stats ::
  "ExtractionResult list \<Rightarrow> py_exception + (string \<times> model_stats) list" where
  "generate_summary_stats results =
     (let metrics = calculate_metrics results
      in if metrics = [] then Inr [] else summarise (group_by_model metrics) [])"

text \<open>
  What the summary holds for a key, stated over the whole metrics list:
  \<open>group_summary\<close> is the entry built from a group's results whose error is
  \<open>None\<close> or empty, with the others tallied as failed; a key whose group has no
  such result has no entry.
\<close>

definition group_summary :: "ComparisonMetrics list \<Rightarrow> model_stats" where
  "group_summary grp =
     (let ok = filter (\<lambda>m. \<not> truthy_str (cm_error m)) grp
      in \<lparr> avg_completeness = sum_list (map completeness_score ok) / real (length ok),
           avg_time = sum_list (map cm_extraction_time ok) / real (length ok),
           stat_total_tokens = sum_list (map cm_total_tokens ok),
           total_cost = sum_list (map cm_cost_usd ok),
           successful_extractions = int (length ok),
           failed_extractions = int (length (filter (\<lambda>m. truthy_str (cm_error m)) grp)) \<rparr>)"

definition expected_summary_entry :: "ComparisonMetrics list \<Rightarrow> string \<Rightarrow> model_stats option" where
  "expected_summary_entry metrics k =
     (let grp = filter (\<lambda>m. model_key (cm_model m) = k) metrics
      in if filter (\<lambda>m. \<not> truthy_str (cm_error m)) grp = [] then None
         else Some (group_summary grp))"

subsection \<open>Comparison of one query across models\<close>

text \<open>
  \<open>max(xs, key=f)\<close> and \<open>min(xs, key=f)\<close>: \<open>ValueError\<close> on an empty sequence,
  otherwise the first element whose key no other element beats.
\<close>

definition py_max_by :: "('a \<Rightarrow> real) \<Rightarrow> 'a list \<Rightarrow> py_exception + 'a" where
  "py_max_by key xs =
     (case xs of
        [] \<Rightarrow> Inl (ValueError ''max() arg is an empty sequence'')
      | x # rest \<Rightarrow> Inr (fold (\<lambda>y best. if key y > key best then y else best) rest x))"

definition py_min_by :: "('a \<Rightarrow> real) \<Rightarrow> 'a list \<Rightarrow> py_exception + 'a" where
  "py_min_by key xs =
     (case xs of
        [] \<Rightarrow> Inl (ValueError ''min() arg is an empty sequence'')
      | x # rest \<Rightarrow> Inr (fold (\<lambda>y best. if key y < key best then y else best) rest x))"

record metrics_row =
  row_model :: string
  row_completeness :: real
  row_time :: real
  row_cost :: real
  row_tokens :: int

record comparison =
  cmp_query_type :: int
  models_compared :: nat
  cmp_metrics :: "metrics_row list"
  best_by_completeness :: string
  best_by_cost :: string
  best_by_speed :: string

text \<open>
  \<open>compare_single_query_results\<close>: the dict display is evaluated entry by entry, so
  the first failing \<open>max\<close> or \<open>min\<close> is the exception the caller sees.
\<close>

definition compare_single_query_results ::
  "ExtractionResult list \<Rightarrow> int \<Rightarrow> py_exception + comparison" where
  "compare_single_query_results results qt =
     (let metrics = calculate_metrics results;
          rows = map (\<lambda>m. \<lparr> row_model = cm_model m, row_completeness = completeness_score m,
                             row_time = cm_extraction_time m, row_cost = cm_cost_usd m,
                             row_tokens = cm_total_tokens m \<rparr>) metrics
      in case py_max_by completeness_score metrics of
           Inl e \<Rightarrow> Inl e
         | Inr bc \<Rightarrow>
           (case py_min_by cm_cost_usd metrics of
              Inl e \<Rightarrow> Inl e
            | Inr bk \<Rightarrow>
              (case py_min_by cm_extraction_time metrics of
                 Inl e \<Rightarrow> Inl e
               | Inr bs \<Rightarrow>
                 Inr \<lparr> cmp_query_type = qt, models_compared = length results,
                       cmp_metrics = rows, best_by_completeness = cm_model bc,
                       best_by_cost = cm_model bk, best_by_speed = cm_model bs \<rparr>)))"

subsection \<open>Sample results\<close>

definition many_fields_result :: ExtractionResult where
  "many_fields_result =
     (ExtractionResult_default ''m'' 1 ''q'')
       \<lparr> extracted_data := JDict [(''executives'', JList (replicate 16 (JDict [(''name'', JStr ''x'')])))] \<rparr>"

definition timeout_result :: ExtractionResult where
  "timeout_result =
     (ExtractionResult_default ''claude-haiku'' 1 ''Basic'')
       \<lparr> extraction_time := 1 / 2, error := Some ''Timeout'' \<rparr>"

definition empty_error_result :: ExtractionResult where
  "empty_error_result =
     (ExtractionResult_default ''m'' 1 ''q'') \<lparr> extraction_time := 2, error := Some [] \<rparr>"

definition sample_results :: "ExtractionResult list" where
  "sample_results =
     [ (ExtractionResult_default ''claude-sonnet'' 1 ''Basic'')
         \<lparr> extracted_data := JDict [(''a'', JInt 1), (''b'', JInt 2), (''c'', JInt 3)],
           prompt_tokens := 1000, completion_tokens := 500, total_tokens := 1500,
           extraction_time := 5, cost_usd := 5 / 100 \<rparr>,
       (ExtractionResult_default ''claude-haiku'' 1 ''Basic'')
         \<lparr> extracted_data := JDict [(''a'', JInt 1), (''b'', JInt 2)],
           prompt_tokens := 1000, completion_tokens := 300, total_tokens := 1300,
           extraction_time := 2, cost_usd := 1 / 100 \<rparr>,
       (ExtractionResult_default ''gpt-4'' 1 ''Basic'')
         \<lparr> extracted_data := JDict [(''a'', JInt 1)],
           prompt_tokens := 1000, completion_tokens := 400, total_tokens := 1400,
           extraction_time := 4, cost_usd := 10 / 100 \<rparr> ]"

section \<open>Cost computation (\<open>extractors.py\<close>)\<close>

text \<open>
  \<open>str.lower()\<close> on the ASCII letters (setting bit 5 of a capital letter adds 32
  to its code), and the substring test \<open>sub in s\<close>.
\<close>

definition lower_char :: "char \<Rightarrow> char" where
  "lower_char c =
     (let n = (of_char c :: nat)
      in if 65 \<le> n \<and> n \<le> 90
         then (case c of Char b0 b1 b2 b3 b4 b5 b6 b7 \<Rightarrow> Char b0 b1 b2 b3 b4 True b6 b7)
         else c)"

definition lower :: "string \<Rightarrow> string" where
  "lower s = map lower_char s"

fun starts_with :: "string \<Rightarrow> string \<Rightarrow> bool" where
  "starts_with [] s = True"
| "starts_with (p # ps) [] = False"
| "starts_with (p # ps) (x # xs) = (p = x \<and> starts_with ps xs)"

fun contains :: "string \<Rightarrow> string \<Rightarrow> bool" where
  "contains sub [] = (sub = [])"
| "contains sub (x # xs) = (starts_with sub (x # xs) \<or> contains sub xs)"

text \<open>
  Python floats. A finite double is a rational number; \<open>pyfloat\<close> adds the two
  infinities and the NaN (the sign of a zero is not kept). \<open>double x\<close> is the
  double nearest to the rational \<open>x\<close>, ties to the even mantissa: \<open>x\<close> is
  rounded to a multiple of \<open>2^(e - 52)\<close>, where \<open>2^e \<le> |x| < 2^(e + 1)\<close> and \<open>e\<close> is
  not taken below -1022 (the subnormal range), and the result is an infinity when
  the rounded value reaches \<open>2^1024\<close>.
\<close>

datatype pyfloat = Fin rat | PInf | NInf | NaN

definition round_half_even :: "rat \<Rightarrow> int" where
  "round_half_even x =
     (let f = \<lfloor>x\<rfloor>; d = x - of_int f
      in if d < 1 / 2 then f else if d > 1 / 2 then f + 1 else if even f then f else f + 1)"

definition exponent :: "rat \<Rightarrow> int" where
  "exponent a =
     (let (p, q) = quotient_of a;
          e = bitlen p - bitlen q
      in if 2 powi e \<le> a then e else e - 1)"

definition double :: "rat \<Rightarrow> pyfloat" where
  "double x =
     (if x = 0 then Fin 0
      else
        (let a = \<bar>x\<bar>;
             e = max (exponent a) (- 1022);
             ulp = 2 powi (e - 52);
             r = of_int (round_half_even (a / ulp)) * ulp
         in if 2 powi 1024 \<le> r then (if 0 < x then PInf else NInf)
            else Fin (if 0 < x then r else - r)))"

text \<open>
  The operations of the cost expression. \<open>a / b\<close> on Python integers is the
  correctly rounded quotient and raises \<open>OverflowError\<close> when that is too large for
  a float; \<open>x * y\<close> and \<open>x + y\<close> on floats are the IEEE 754 operations, which
  overflow to an infinity without raising.
\<close>

definition int_true_divide :: "int \<Rightarrow> int \<Rightarrow> py_exception + pyfloat" where
  "int_true_divide a b =
     (if b = 0 then Inl (ZeroDivisionError ''division by zero'')
      else (case double (of_int a / of_int b) of
              Fin q \<Rightarrow> Inr (Fin q)
            | _ \<Rightarrow> Inl (OverflowError ''integer division result too large for a float'')))"

fun fmul :: "pyfloat \<Rightarrow> pyfloat \<Rightarrow> pyfloat" where
  "fmul (Fin a) (Fin b) = double (a * b)"
| "fmul NaN y = NaN"
| "fmul x NaN = NaN"
| "fmul (Fin a) PInf = (if a = 0 then NaN else if 0 < a then PInf else NInf)"
| "fmul (Fin a) NInf = (if a = 0 then NaN else if 0 < a then NInf else PInf)"
| "fmul PInf (Fin b) = (if b = 0 then NaN else if 0 < b then PInf else NInf)"
| "fmul NInf (Fin b) = (if b = 0 then NaN else if 0 < b then NInf else PInf)"
| "fmul PInf PInf = PInf"
| "fmul PInf NInf = NInf"
| "fmul NInf PInf = NInf"
| "fmul NInf NInf = PInf"

fun fadd :: "pyfloat \<Rightarrow> pyfloat \<Rightarrow> pyfloat" where
  "fadd (Fin a) (Fin b) = double (a + b)"
| "fadd NaN y = NaN"
| "fadd x NaN = NaN"
| "fadd PInf NInf = NaN"
| "fadd NInf PInf = NaN"
| "fadd PInf y = PInf"
| "fadd x PInf = PInf"
| "fadd NInf y = NInf"
| "fadd x NInf = NInf"

text \<open>
  \<open>round(x, ndigits)\<close> on a float, for \<open>ndigits \<ge> 0\<close>: an infinity or a NaN rounds
  to itself; above 323 digits \<open>x\<close> is returned as it is; otherwise the exact value
  of \<open>x\<close> is rounded to \<open>ndigits\<close> decimals, ties to the even last digit, and that
  decimal is converted to the nearest double, with an \<open>OverflowError\<close> when this
  is not finite.
\<close>

definition py_round :: "pyfloat \<Rightarrow> nat \<Rightarrow> py_exception + pyfloat" where
  "py_round x ndigits =
     (case x of
        Fin q \<Rightarrow>
          if 323 < ndigits then Inr x
          else (case double (of_int (round_half_even (q * 10 ^ ndigits)) / 10 ^ ndigits) of
                  Fin r \<Rightarrow> Inr (Fin r)
                | _ \<Rightarrow> Inl (OverflowError ''rounded value too large to represent''))
      | _ \<Rightarrow> Inr x)"

text \<open>
  \<open>BaseExtractor._calculate_cost\<close>: the pricing table, the \<open>if\<close>/\<open>elif\<close> chain
  that chooses \<open>model_key\<close>, and the rounded cost. The prices are doubles.
\<close>

definition pricing :: "(string \<times> pyfloat \<times> pyfloat) list" where
  "pricing = [(''claude-sonnet'', (Fin 3, Fin 15)), (''claude-haiku'', (Fin (1 / 4), Fin (5 / 4))),
              (''gpt-4'', (Fin 10, Fin 30))]"

definition model_category :: "string \<Rightarrow> string option" where
  "model_category m =
     (if contains ''sonnet'' (lower m) then Some ''claude-sonnet''
      else if contains ''haiku'' (lower m) then Some ''claude-haiku''
      else if contains ''gpt-4'' (lower m) \<or> contains ''gpt4'' (lower m) then Some ''gpt-4''
      else None)"

definition calculate_cost :: "int \<Rightarrow> int \<Rightarrow> string \<Rightarrow> py_exception + pyfloat" where
  "calculate_cost prompt_toks completion_toks m =
     (case model_category m of
        None \<Rightarrow> Inr (Fin 0)
      | Some model_key' \<Rightarrow>
        (case map_of pricing model_key' of
           None \<Rightarrow> Inr (Fin 0)
         | Some (input_price, output_price) \<Rightarrow>
           (case int_true_divide prompt_toks 1000000 of
              Inl e \<Rightarrow> Inl e
            | Inr a \<Rightarrow>
              (case int_true_divide completion_toks 1000000 of
                 Inl e \<Rightarrow> Inl e
               | Inr b \<Rightarrow> py_round (fadd (fmul a input_price) (fmul b output_price)) 6))))"

text \<open>
  The formula of the specification,
  \<open>round(promptTokens/1e6 * inputPricePerMillion + completionTokens/1e6 * outputPricePerMillion, 6)\<close>,
  in the same float operations, for given prices per million.
\<close>

definition spec_cost :: "int \<Rightarrow> int \<Rightarrow> rat \<Rightarrow> rat \<Rightarrow> py_exception + pyfloat" where
  "spec_cost prompt_toks completion_toks input_price_per_million output_price_per_million =
     (case int_true_divide prompt_toks 1000000 of
        Inl e \<Rightarrow> Inl e
      | Inr a \<Rightarrow>
        (case int_true_divide completion_toks 1000000 of
           Inl e \<Rightarrow> Inl e
         | Inr b \<Rightarrow>
             py_round (fadd (fmul a (Fin input_price_per_million))
                            (fmul b (Fin output_price_per_million))) 6))"

text \<open>The same formula in exact arithmetic, with the prices of the family of the model.\<close>

definition exact_cost :: "int \<Rightarrow> int \<Rightarrow> string \<Rightarrow> rat" where
  "exact_cost prompt_toks completion_toks m =
     (if contains ''sonnet'' (lower m)
        then (of_int prompt_toks * 3 + of_int completion_toks * 15) / 10 ^ 6
      else if contains ''haiku'' (lower m)
        then (of_int prompt_toks * (1 / 4) + of_int completion_toks * (5 / 4)) / 10 ^ 6
      else if contains ''gpt-4'' (lower m) \<or> contains ''gpt4'' (lower m)
        then (of_int prompt_toks * 10 + of_int completion_toks * 30) / 10 ^ 6
      else 0)"

text \<open>The finite value of a float as a real number, where a result record keeps it.\<close>

definition float_value :: "pyfloat \<Rightarrow> real" where
  "float_value x = (case x of Fin q \<Rightarrow> of_rat q | _ \<Rightarrow> 0)"

section \<open>Rate limiter (\<open>RateLimiter\<close> of \<open>extractors.py\<close> and \<open>parser.py\<close>)\<close>

text \<open>
  The two classes are the same code. \<open>acquire\<close> computes \<open>time_since_last\<close> and,
  when it is below \<open>min_interval\<close>, the \<open>wait_time\<close> it sleeps. Times are real
  numbers.
\<close>

definition wait_time :: "real \<Rightarrow> real \<Rightarrow> real \<Rightarrow> real option" where
  "wait_time min_interval now last_request =
     (let time_since_last = now - last_request
      in if time_since_last < min_interval then Some (min_interval - time_since_last)
         else None)"

text \<open>
  The coroutines that call \<open>acquire\<close> on one limiter, as a transition system over
  the events of the asyncio loop. A task is outside \<open>acquire\<close>, queued at
  \<open>async with self._lock\<close>, or suspended in \<open>asyncio.sleep\<close> while it holds the lock
  (the only \<open>await\<close> inside the critical section), with the time before which the
  sleep does not return. Code between two suspension points runs as one step.
  What the model takes from the environment: the clock never goes back
  (\<open>Tick d\<close> with \<open>0 \<le> d\<close>), a sleep does not return before its delay has passed
  (\<open>Wake\<close> needs the deadline reached), and a task enters only when the lock is
  free. \<open>lim_grants\<close> logs the recorded call times, newest first.
\<close>

datatype task_pc = Outside | Queued | Sleeping real

fun is_sleeping :: "task_pc \<Rightarrow> bool" where
  "is_sleeping (Sleeping _) = True"
| "is_sleeping _ = False"

record limiter =
  lim_requests_per_minute :: int
  lim_min_interval :: real
  lim_clock :: real
  lim_last_request_time :: real
  lim_locked :: bool
  lim_pc :: "nat \<Rightarrow> task_pc"
  lim_grants :: "real list"

text \<open>
  \<open>RateLimiter.__init__\<close>, called when the clock shows \<open>t0\<close>:
  \<open>min_interval = 60.0 / requests_per_minute\<close> (a \<open>ZeroDivisionError\<close> for 0
  requests per minute), \<open>last_request_time = 0.0\<close>, a fresh lock.
\<close>

definition RateLimiter_init :: "int \<Rightarrow> real \<Rightarrow> py_exception + limiter" where
  "RateLimiter_init requests_per_minute t0 =
     (if requests_per_minute = 0 then Inl (ZeroDivisionError ''float division by zero'')
      else Inr \<lparr> lim_requests_per_minute = requests_per_minute,
                 lim_min_interval = 60 / real_of_int requests_per_minute,
                 lim_clock = t0, lim_last_request_time = 0, lim_locked = False,
                 lim_pc = (\<lambda>_. Outside), lim_grants = [] \<rparr>)"

text \<open>
  The events: the clock advances; task \<open>i\<close> calls \<open>acquire\<close>; task \<open>i\<close> takes the
  free lock and runs up to its \<open>await asyncio.sleep\<close> or, when there is nothing to
  wait for, up to the end (\<open>d\<close> is the time between its two readings of the clock);
  the sleep of task \<open>i\<close> returns, the task records the time, releases the lock and
  returns from \<open>acquire\<close>.
\<close>

datatype event = Tick real | Call nat | Enter nat real | Wake nat

fun step :: "limiter \<Rightarrow> event \<Rightarrow> limiter option" where
  "step s (Tick d) =
     (if 0 \<le> d then Some (s\<lparr> lim_clock := lim_clock s + d \<rparr>) else None)"
| "step s (Call i) =
     (if lim_pc s i = Outside then Some (s\<lparr> lim_pc := (lim_pc s)(i := Queued) \<rparr>) else None)"
| "step s (Enter i d) =
     (if lim_pc s i = Queued \<and> \<not> lim_locked s \<and> 0 \<le> d then
        (case wait_time (lim_min_interval s) (lim_clock s) (lim_last_request_time s) of
           Some w \<Rightarrow>
             Some (s\<lparr> lim_locked := True,
                      lim_pc := (lim_pc s)(i := Sleeping (lim_clock s + w)) \<rparr>)
         | None \<Rightarrow>
             Some (s\<lparr> lim_clock := lim_clock s + d,
                      lim_last_request_time := lim_clock s + d,
                      lim_pc := (lim_pc s)(i := Outside),
                      lim_grants := (lim_clock s + d) # lim_grants s \<rparr>))
      else None)"
| "step s (Wake i) =
     (case lim_pc s i of
        Sleeping deadline \<Rightarrow>
          (if deadline \<le> lim_clock s then
             Some (s\<lparr> lim_last_request_time := lim_clock s, lim_locked := False,
                      lim_pc := (lim_pc s)(i := Outside),
                      lim_grants := lim_clock s # lim_grants s \<rparr>)
           else None)
      | _ \<Rightarrow> None)"

fun run :: "limiter \<Rightarrow> event list \<Rightarrow> limiter option" where
  "run s [] = Some s"
| "run s (e # es) = (case step s e of None \<Rightarrow> None | Some s' \<Rightarrow> run s' es)"

text \<open>Consecutive recorded times are at least \<open>mi\<close> apart.\<close>

fun spaced :: "real \<Rightarrow> real list \<Rightarrow> bool" where
  "spaced mi (g1 # g2 # gs) = (mi \<le> g1 - g2 \<and> spaced mi (g2 # gs))"
| "spaced mi gs = True"

text \<open>
  Task \<open>i\<close> has returned from \<open>acquire\<close> in \<open>s'\<close>, after a grant that \<open>s\<close> did not
  have: the time of the latest grant is the clock and is the recorded
  \<open>last_request_time\<close>.
\<close>

definition returned_from :: "limiter \<Rightarrow> limiter \<Rightarrow> nat \<Rightarrow> bool" where
  "returned_from s s' i =
     (lim_pc s' i = Outside \<and> length (lim_grants s) < length (lim_grants s')
      \<and> lim_grants s' \<noteq> [] \<and> hd (lim_grants s') = lim_clock s'
      \<and> lim_last_request_time s' = lim_clock s')"

text \<open>The invariant of the transition system.\<close>

definition limiter_inv :: "real \<Rightarrow> limiter \<Rightarrow> bool" where
  "limiter_inv mi s =
     (lim_min_interval s = mi
      \<and> (\<forall>i. is_sleeping (lim_pc s i) \<longrightarrow>
            lim_locked s \<and> lim_pc s i = Sleeping (lim_last_request_time s + mi))
      \<and> (\<forall>i j. is_sleeping (lim_pc s i) \<and> is_sleeping (lim_pc s j) \<longrightarrow> i = j)
      \<and> (lim_locked s \<longrightarrow> (\<exists>i. is_sleeping (lim_pc s i)))
      \<and> (lim_grants s \<noteq> [] \<longrightarrow> lim_last_request_time s = hd (lim_grants s))
      \<and> spaced mi (lim_grants s))"

text \<open>
  Two callers on a limiter of 30 requests per minute: the second waits for the
  first grant to be 2 seconds old, the first comes back and waits in turn.
\<close>

definition two_callers :: "event list" where
  "two_callers = [Call 0, Call 1, Enter 0 0, Enter 1 0, Tick 1, Tick 1, Wake 1,
                  Call 0, Enter 0 0, Tick 3, Wake 0]"

section \<open>Time, requests and retries\<close>

text \<open>
  The part of the environment one parser or extractor call runs against: the clock
  \<open>time.time()\<close>, the limiter's \<open>last_request_time\<close>, and the number of requests
  issued to the remote service so far (the environment answers the \<open>k\<close>-th
  request by its number).
\<close>

record world =
  w_clock :: real
  w_last_request_time :: real
  w_requests :: nat

text \<open>
  \<open>RateLimiter.acquire\<close> for a single caller: it sleeps for \<open>wait_time\<close> when there
  is one, then records the time.
\<close>

definition acquire :: "real \<Rightarrow> world \<Rightarrow> world" where
  "acquire mi w =
     (case wait_time mi (w_clock w) (w_last_request_time w) of
        Some wt \<Rightarrow> w\<lparr> w_clock := w_clock w + wt, w_last_request_time := w_clock w + wt \<rparr>
      | None \<Rightarrow> w\<lparr> w_last_request_time := w_clock w \<rparr>)"

text \<open>
  The decorator \<open>@retry(stop=stop_after_attempt(3), wait=wait_exponential(multiplier=1,
  min=2, max=60), retry=retry_if_exception_type(...), reraise=True)\<close> of the tenacity
  library: the body is called; a returned value is returned; a raised exception that
  the predicate accepts is followed by a sleep and the next attempt, until the third
  attempt, whose exception is raised to the caller; any other exception is raised at
  once. The wait after attempt \<open>n\<close> is \<open>max(2, min(2^(n-1), 60))\<close> seconds.
\<close>

definition sleep :: "real \<Rightarrow> world \<Rightarrow> world" where
  "sleep d w = w\<lparr> w_clock := w_clock w + d \<rparr>"

definition wait_exponential :: "nat \<Rightarrow> real" where
  "wait_exponential attempt_number = max 2 (min (2 ^ (attempt_number - 1)) 60)"

fun retry_attempts ::
  "nat \<Rightarrow> nat \<Rightarrow> (py_exception \<Rightarrow> bool) \<Rightarrow> (world \<Rightarrow> (py_exception + 'a) \<times> world)
   \<Rightarrow> world \<Rightarrow> (py_exception + 'a) \<times> world" where
  "retry_attempts 0 attempt_number retryable body w = body w"
| "retry_attempts (Suc left) attempt_number retryable body w =
     (case body w of
        (Inr r, w') \<Rightarrow> (Inr r, w')
      | (Inl e, w') \<Rightarrow>
          if retryable e
          then retry_attempts left (attempt_number + 1) retryable body
                 (sleep (wait_exponential attempt_number) w')
          else (Inl e, w'))"

definition retry3 ::
  "(py_exception \<Rightarrow> bool) \<Rightarrow> (world \<Rightarrow> (py_exception + 'a) \<times> world)
   \<Rightarrow> world \<Rightarrow> (py_exception + 'a) \<times> world" where
  "retry3 retryable body w = retry_attempts 2 1 retryable body w"

section \<open>Document parser (\<open>parser.py\<close>)\<close>

text \<open>
  The dataclass \<open>ParseResult\<close> (fields prefixed \<open>pr_\<close>) with its defaults. An
  element dict keeps its type and text; its free-form metadata is left out.
\<close>

datatype ParsingStrategy = HI_RES | FAST | OCR_ONLY | AUTO

record element_dict =
  el_type :: "string option"
  el_text :: string

record ParseResult =
  pr_file_path :: string
  pr_strategy :: ParsingStrategy
  pr_text :: string
  pr_elements :: "element_dict list option"
  pr_metadata :: "(string \<times> int) list option"
  pr_parse_time :: real
  pr_token_count :: "int option"
  pr_error :: "string option"

definition ParseResult_default :: "string \<Rightarrow> ParsingStrategy \<Rightarrow> string \<Rightarrow> ParseResult" where
  "ParseResult_default path strategy txt =
     \<lparr> pr_file_path = path, pr_strategy = strategy, pr_text = txt, pr_elements = None,
       pr_metadata = None, pr_parse_time = 0, pr_token_count = None, pr_error = None \<rparr>"

text \<open>
  \<open>sep.join(parts)\<close>, and the truth value of \<open>s.strip()\<close>: some character of \<open>s\<close>
  is not whitespace (the ASCII whitespace characters of \<open>str.isspace\<close>).
\<close>

fun join :: "string \<Rightarrow> string list \<Rightarrow> string" where
  "join sep [] = []"
| "join sep [x] = x"
| "join sep (x # y # ys) = x @ sep @ join sep (y # ys)"

definition is_whitespace :: "char \<Rightarrow> bool" where
  "is_whitespace c = (let n = (of_char c :: nat) in (9 \<le> n \<and> n \<le> 13) \<or> (28 \<le> n \<and> n \<le> 32))"

definition strip_is_truthy :: "string \<Rightarrow> bool" where
  "strip_is_truthy s = list_ex (\<lambda>c. \<not> is_whitespace c) s"

text \<open>
  What the environment of one \<open>parse\<close> call answers. \<open>file_path.exists()\<close>
  returns a bool or re-raises the \<open>OSError\<close> of the underlying \<open>stat\<close> when its
  error number is not one of those it takes for a missing file (a name that is too
  long, a directory that may not be searched): the answer is the bool or the error
  number and message. The client was built or not. For the remote path: the
  exception of reading the file if any, the outcome of the partition request (the
  elements of the response, or the exception \<open>asyncio.wait_for\<close> and the SDK raise)
  with the seconds it takes, and the outcome of \<open>file_path.stat()\<close>. For the local
  path: the exception of the import if any, and the outcome of \<open>partition_pdf\<close>.
  An element of a response has an optional type and an optional text. One answer
  per call is enough: the body of \<open>_parse_with_api\<close> never raises what its
  decorator retries, so a call issues at most one request.
\<close>

record api_element =
  ae_type :: "string option"
  ae_text :: "string option"

record local_element =
  le_type_name :: string
  le_str :: string

record parser_env =
  file_exists :: "(nat \<times> string) + bool"
  client_ready :: bool
  min_interval :: real
  api_read :: "py_exception option"
  api_partition :: "py_exception + api_element list"
  api_latency :: real
  api_stat :: "py_exception + int"
  local_import :: "py_exception option"
  local_partition :: "py_exception + local_element list"
  local_latency :: real

text \<open>
  \<open>_parse_with_api\<close>. \<open>api_result\<close> is the \<open>ParseResult\<close> built after a response;
  \<open>api_try\<close> is the \<open>try\<close> block, which any of its three fallible steps leaves with
  that step's exception; \<open>parse_with_api_body\<close> is the function body, whose
  \<open>except Exception\<close> turns the exception into an error result with \<open>str(e)\<close> as
  its error; \<open>parse_with_api\<close> is the decorated method, retrying on \<open>SDKError\<close>
  and \<open>asyncio.TimeoutError\<close>.
\<close>

definition api_result ::
  "string \<Rightarrow> ParsingStrategy \<Rightarrow> api_element list \<Rightarrow> real \<Rightarrow> int \<Rightarrow> ParseResult" where
  "api_result path strategy response_elements parse_time file_size =
     (let elements = map (\<lambda>element. \<lparr> el_type = ae_type element,
                                        el_text = (case ae_text element of None \<Rightarrow> []
                                                   | Some t \<Rightarrow> t) \<rparr>) response_elements;
          full_text_parts = map el_text (filter (\<lambda>elem_dict. el_text elem_dict \<noteq> []) elements);
          full_text = join [CHR 0x0A, CHR 0x0A] full_text_parts;
          token_cnt = int (length full_text) div 4
      in \<lparr> pr_file_path = path, pr_strategy = strategy, pr_text = full_text,
           pr_elements = Some elements,
           pr_metadata = Some [(''num_elements'', int (length elements)),
                               (''file_size'', file_size)],
           pr_parse_time = parse_time, pr_token_count = Some token_cnt, pr_error = None \<rparr>)"

definition api_try ::
  "parser_env \<Rightarrow> string \<Rightarrow> ParsingStrategy \<Rightarrow> py_exception + ParseResult" where
  "api_try env path strategy =
     (case api_read env of
        Some e \<Rightarrow> Inl e
      | None \<Rightarrow>
        (case api_partition env of
           Inl e \<Rightarrow> Inl e
         | Inr response_elements \<Rightarrow>
           (case api_stat env of
              Inl e \<Rightarrow> Inl e
            | Inr file_size \<Rightarrow>
                Inr (api_result path strategy response_elements (api_latency env) file_size))))"

definition parse_with_api_body ::
  "parser_env \<Rightarrow> string \<Rightarrow> ParsingStrategy \<Rightarrow> world \<Rightarrow> (py_exception + ParseResult) \<times> world" where
  "parse_with_api_body env path strategy w =
     (if \<not> client_ready env
      then (Inl (RuntimeError ''Unstructured API client not initialized''), w)
      else
        (let w1 = acquire (min_interval env) w;
             start_time = w_clock w1;
             w2 = (if api_read env = None
                   then w1\<lparr> w_clock := w_clock w1 + api_latency env,
                           w_requests := w_requests w1 + 1 \<rparr>
                   else w1)
         in case api_try env path strategy of
              Inr result \<Rightarrow> (Inr result, w2)
            | Inl e \<Rightarrow>
                (Inr ((ParseResult_default path strategy [])
                        \<lparr> pr_parse_time := w_clock w2 - start_time,
                          pr_error := Some (exc_str e) \<rparr>), w2)))"

fun api_retryable :: "py_exception \<Rightarrow> bool" where
  "api_retryable (SDKError _) = True"
| "api_retryable (TimeoutError _) = True"
| "api_retryable _ = False"

definition parse_with_api ::
  "parser_env \<Rightarrow> string \<Rightarrow> ParsingStrategy \<Rightarrow> world \<Rightarrow> (py_exception + ParseResult) \<times> world" where
  "parse_with_api env path strategy w =
     retry3 api_retryable (parse_with_api_body env path strategy) w"

text \<open>
  \<open>_parse_local\<close>: the \<open>try\<close> block and its two handlers, \<open>except ImportError\<close>
  with its fixed message and \<open>except Exception\<close> with \<open>str(e)\<close>.
\<close>

definition local_result ::
  "string \<Rightarrow> ParsingStrategy \<Rightarrow> local_element list \<Rightarrow> real \<Rightarrow> ParseResult" where
  "local_result path strategy elements parse_time =
     (let text_parts = map le_str (filter (\<lambda>elem. strip_is_truthy (le_str elem)) elements);
          full_text = join [CHR 0x0A, CHR 0x0A] text_parts;
          token_cnt = int (length full_text) div 4
      in \<lparr> pr_file_path = path, pr_strategy = strategy, pr_text = full_text,
           pr_elements = Some (map (\<lambda>e. \<lparr> el_type = Some (le_type_name e),
                                            el_text = le_str e \<rparr>) elements),
           pr_metadata = Some [(''num_elements'', int (length elements))],
           pr_parse_time = parse_time, pr_token_count = Some token_cnt, pr_error = None \<rparr>)"

definition local_try ::
  "parser_env \<Rightarrow> string \<Rightarrow> ParsingStrategy \<Rightarrow> py_exception + ParseResult" where
  "local_try env path strategy =
     (case local_import env of
        Some e \<Rightarrow> Inl e
      | None \<Rightarrow>
        (case local_partition env of
           Inl e \<Rightarrow> Inl e
         | Inr elements \<Rightarrow> Inr (local_result path strategy elements (local_latency env))))"

definition parse_local ::
  "parser_env \<Rightarrow> string \<Rightarrow> ParsingStrategy \<Rightarrow> world \<Rightarrow> (py_exception + ParseResult) \<times> world" where
  "parse_local env path strategy w =
     (let start_time = w_clock w;
          w1 = (if local_import env = None
                then w\<lparr> w_clock := w_clock w + local_latency env \<rparr> else w)
      in case local_try env path strategy of
           Inr result \<Rightarrow> (Inr result, w1)
         | Inl (ImportError msg) \<Rightarrow>
             (Inr ((ParseResult_default path strategy [])
                     \<lparr> pr_parse_time := w_clock w1 - start_time,
                       pr_error := Some ''Local parsing requires: pip install unstructured[pdf]'' \<rparr>),
              w1)
         | Inl e \<Rightarrow>
             (Inr ((ParseResult_default path strategy [])
                     \<lparr> pr_parse_time := w_clock w1 - start_time,
                       pr_error := Some (exc_str e) \<rparr>), w1))"

text \<open>
  \<open>PDFParser.parse\<close>. The call \<open>file_path.exists()\<close> stands before the two
  \<open>try\<close> blocks, so the \<open>OSError\<close> it raises leaves \<open>parse\<close> as an exception.
\<close>

definition parse ::
  "parser_env \<Rightarrow> string \<Rightarrow> ParsingStrategy \<Rightarrow> bool \<Rightarrow> world
   \<Rightarrow> (py_exception + ParseResult) \<times> world" where
  "parse env path strategy use_api w =
     (case file_exists env of
        Inl (errno, strerror) \<Rightarrow> (Inl (OSError errno strerror path), w)
      | Inr found \<Rightarrow>
          if \<not> found
          then (Inr ((ParseResult_default path strategy [])
                       \<lparr> pr_error := Some ''File not found'' \<rparr>), w)
          else if use_api \<and> client_ready env then parse_with_api env path strategy w
          else parse_local env path strategy w)"

text \<open>
  \<open>parse_batch\<close>. \<open>asyncio.Semaphore(max_concurrent)\<close> raises a \<open>ValueError\<close> for a
  negative value. One task per file runs \<open>parse\<close> under the semaphore; with no
  files \<open>gather\<close> returns at once, and with files and a semaphore of 0 no task is
  ever admitted and \<open>gather\<close> never returns (\<open>None\<close>). Otherwise the tasks complete
  in some order, the schedule, each with the value \<open>parse\<close> returned or the
  exception it raised, or cancelled from outside while it waits (\<open>cancelled i\<close>;
  \<open>CancelledError\<close> is not an \<open>Exception\<close>, so no handler of \<open>parse\<close> catches it):
  \<open>run_tasks\<close> runs them in that order on the shared clock and limiter.
  \<open>asyncio.gather(*tasks, return_exceptions=True)\<close> stores each outcome at the index
  of its task and returns once every slot is filled; a schedule in which some task
  never completes gives no return. The loop over the gathered list then replaces
  an \<open>Exception\<close> by an error result for the file at that index and appends
  anything else as it is: a returned \<open>ParseResult\<close>, or the \<open>CancelledError\<close> of a
  cancelled task.
\<close>

datatype task_result = Returned ParseResult | Raised py_exception | Cancelled

datatype batch_entry = Parsed ParseResult | CancelledError

definition gather :: "nat \<Rightarrow> (nat \<times> 'a) list \<Rightarrow> 'a option list" where
  "gather n completions =
     fold (\<lambda>done slots. slots[fst done := Some (snd done)]) completions (replicate n None)"

definition batch_slot :: "string \<Rightarrow> ParsingStrategy \<Rightarrow> task_result \<Rightarrow> batch_entry" where
  "batch_slot path strategy result =
     (case result of
        Raised e \<Rightarrow>
          Parsed ((ParseResult_default path strategy []) \<lparr> pr_error := Some (exc_str e) \<rparr>)
      | Returned r \<Rightarrow> Parsed r
      | Cancelled \<Rightarrow> CancelledError)"

definition task_outcome :: "py_exception + ParseResult \<Rightarrow> task_result" where
  "task_outcome out = (case out of Inl e \<Rightarrow> Raised e | Inr r \<Rightarrow> Returned r)"

fun run_tasks ::
  "(nat \<Rightarrow> parser_env) \<Rightarrow> (nat \<Rightarrow> bool) \<Rightarrow> string list \<Rightarrow> ParsingStrategy \<Rightarrow> bool
   \<Rightarrow> nat list \<Rightarrow> world \<Rightarrow> (nat \<times> task_result) list \<times> world" where
  "run_tasks envs cancelled file_paths strategy use_api [] w = ([], w)"
| "run_tasks envs cancelled file_paths strategy use_api (i # schedule) w =
     (if cancelled i
      then (let others = run_tasks envs cancelled file_paths strategy use_api schedule w
            in ((i, Cancelled) # fst others, snd others))
      else (let finished = parse (envs i) (file_paths ! i) strategy use_api w;
                others = run_tasks envs cancelled file_paths strategy use_api schedule
                           (snd finished)
            in ((i, task_outcome (fst finished)) # fst others, snd others)))"

text \<open>A schedule in which each of the \<open>n\<close> tasks completes once.\<close>

definition valid_schedule :: "nat \<Rightarrow> nat list \<Rightarrow> bool" where
  "valid_schedule n schedule =
     (length schedule = n \<and> distinct schedule \<and> list_all (\<lambda>i. i < n) schedule)"

definition parse_batch ::
  "(nat \<Rightarrow> parser_env) \<Rightarrow> (nat \<Rightarrow> bool) \<Rightarrow> string list \<Rightarrow> ParsingStrategy \<Rightarrow> bool \<Rightarrow> int
   \<Rightarrow> nat list \<Rightarrow> world \<Rightarrow> (py_exception + batch_entry list) option" where
  "parse_batch envs cancelled file_paths strategy use_api max_concurrent schedule w =
     (if max_concurrent < 0
      then Some (Inl (ValueError ''Semaphore initial value must be >= 0''))
      else if file_paths = [] then Some (Inr [])
      else if max_concurrent = 0 \<or> \<not> valid_schedule (length file_paths) schedule then None
      else
        (let completions = fst (run_tasks envs cancelled file_paths strategy use_api schedule w);
             results = gather (length file_paths) completions
         in if list_all (\<lambda>slot. slot \<noteq> None) results
            then Some (Inr (map (\<lambda>(path, slot). batch_slot path strategy (the slot))
                               (zip file_paths results)))
            else None))"

text \<open>
  What slot \<open>i\<close> of the batch holds, from the outcome of \<open>parse\<close> on file \<open>i\<close>
  with its own environment.
\<close>

definition expected_slot ::
  "(nat \<Rightarrow> parser_env) \<Rightarrow> (nat \<Rightarrow> bool) \<Rightarrow> string list \<Rightarrow> ParsingStrategy \<Rightarrow> bool
   \<Rightarrow> world \<Rightarrow> nat \<Rightarrow> batch_entry" where
  "expected_slot envs cancelled file_paths strategy use_api w i =
     batch_slot (file_paths ! i) strategy
       (if cancelled i then Cancelled
        else task_outcome (fst (parse (envs i) (file_paths ! i) strategy use_api w)))"

text \<open>The invariant of the data model: \<open>error\<close> is set exactly when the text is empty and
  \<open>elements\<close> and \<open>token_count\<close> are \<open>None\<close>.\<close>

definition ParseResult_invariant :: "ParseResult \<Rightarrow> bool" where
  "ParseResult_invariant r =
     ((pr_error r \<noteq> None) = (pr_text r = [] \<and> pr_elements r = None \<and> pr_token_count r = None))"

text \<open>An error result as the three paths of \<open>parse\<close> build it.\<close>

definition error_result :: "string \<Rightarrow> ParsingStrategy \<Rightarrow> real \<Rightarrow> string \<Rightarrow> ParseResult" where
  "error_result path strategy t msg =
     (ParseResult_default path strategy []) \<lparr> pr_parse_time := t, pr_error := Some msg \<rparr>"

subsection \<open>Sample inputs\<close>

definition start_world :: world where
  "start_world = \<lparr> w_clock = 100, w_last_request_time = 0, w_requests = 0 \<rparr>"

text \<open>
  A file the service answers with one paragraph; the same file when the request
  runs into the timeout (\<open>asyncio.wait_for\<close> raises \<open>TimeoutError()\<close>, whose
  string is empty); and a file in a directory that may not be searched.
\<close>

definition page_env :: "string \<Rightarrow> parser_env" where
  "page_env content =
     \<lparr> file_exists = Inr True, client_ready = True, min_interval = 2, api_read = None,
       api_partition = Inr [\<lparr> ae_type = Some ''NarrativeText'', ae_text = Some content \<rparr>],
       api_latency = 1, api_stat = Inr 1000,
       local_import = Some (ImportError ''No module named unstructured''),
       local_partition = Inr [], local_latency = 0 \<rparr>"

definition timeout_env :: parser_env where
  "timeout_env = (page_env ''first'') \<lparr> api_partition := Inl (TimeoutError []), api_latency := 120 \<rparr>"

definition denied_env :: parser_env where
  "denied_env = (page_env ''second'') \<lparr> file_exists := Inl (13, ''Permission denied'') \<rparr>"

definition page_result :: "string \<Rightarrow> string \<Rightarrow> ParseResult" where
  "page_result path content =
     api_result path HI_RES [\<lparr> ae_type = Some ''NarrativeText'', ae_text = Some content \<rparr>] 1 1000"

definition three_files :: "string list" where
  "three_files = [''a.pdf'', ''private/b.pdf'', ''c.pdf'']"

definition three_envs :: "nat \<Rightarrow> parser_env" where
  "three_envs i = (if i = 0 then page_env ''first'' else if i = 1 then denied_env
                   else page_env ''third'')"

definition nobody :: "nat \<Rightarrow> bool" where
  "nobody i = False"

section \<open>Model extractors (\<open>extractors.py\<close>)\<close>

text \<open>
  What an extractor reads from a response: the text of the first content block or
  of the first choice (\<open>None\<close> when there is none), the token counts of \<open>usage\<close>
  and the stop or finish reason. An extractor is its model name, the value of its
  model type, the interval of its rate limiter, the configured timeout, and
  \<open>_parse_json_response\<close>, taken as a function from the raw text to the parsed
  value (\<open>JNull\<close> when nothing parses). The backend answers request \<open>k\<close>, given
  the message texts, with a response or the exception \<open>asyncio.wait_for\<close> or the
  client raises, and with the seconds this took.
\<close>

record llm_response =
  resp_text :: "string option"
  resp_prompt_tokens :: int
  resp_completion_tokens :: int
  resp_total_tokens :: int
  resp_stop_reason :: string

record extractor =
  ex_model_name :: string
  ex_model_type :: string
  ex_min_interval :: real
  ex_api_timeout :: nat
  ex_parse_json_response :: "string \<Rightarrow> json"

type_synonym backend = "nat \<Rightarrow> string list \<Rightarrow> (py_exception + llm_response) \<times> real"

text \<open>
  The result the two \<open>except\<close> clauses build: the dataclass defaults (no data, zero
  tokens, zero cost) with the elapsed time and the error message.
\<close>

definition failed_extraction ::
  "extractor \<Rightarrow> int \<Rightarrow> string \<Rightarrow> real \<Rightarrow> string \<Rightarrow> ExtractionResult" where
  "failed_extraction ex qt qn elapsed msg =
     (ExtractionResult_default (ex_model_name ex) qt qn)
       \<lparr> extraction_time := elapsed, error := Some msg \<rparr>"

text \<open>
  \<open>ClaudeExtractor.extract\<close> and \<open>OpenAIExtractor.extract\<close>: the function bodies,
  whose \<open>try\<close> block covers the request and everything after it, and the decorated
  methods, which retry on \<open>(asyncio.TimeoutError, Exception)\<close>, that is on every
  exception the body raises. The cost is computed inside the \<open>try\<close> block, so its
  \<open>OverflowError\<close> is handled by \<open>except Exception\<close> like an exception of the
  request. The results keep the cost as a real number; a cost that is not finite
  (it takes a token count above \<open>10^313\<close>) has no value there and reads as 0.
\<close>

definition claude_extract_body ::
  "extractor \<Rightarrow> backend \<Rightarrow> string \<Rightarrow> string \<Rightarrow> int \<Rightarrow> string \<Rightarrow> world
   \<Rightarrow> (py_exception + ExtractionResult) \<times> world" where
  "claude_extract_body ex service doc prompt qt qn w =
     (let w1 = acquire (ex_min_interval ex) w;
          start_time = w_clock w1;
          k = w_requests w1;
          user_message = prompt @ [CHR 0x0A, CHR 0x0A] @ ''Document text:''
                         @ [CHR 0x0A, CHR 0x0A] @ doc;
          answer = service k [user_message];
          w2 = w1\<lparr> w_clock := w_clock w1 + snd answer, w_requests := k + 1 \<rparr>
      in case fst answer of
           Inr response \<Rightarrow>
             (let elapsed = w_clock w2 - start_time;
                  response_text = (case resp_text response of None \<Rightarrow> [] | Some t \<Rightarrow> t);
                  data = ex_parse_json_response ex response_text;
                  p_tokens = resp_prompt_tokens response;
                  c_tokens = resp_completion_tokens response;
                  t_tokens = p_tokens + c_tokens
              in case calculate_cost p_tokens c_tokens (ex_model_name ex) of
                   Inr cost \<Rightarrow>
                     (Inr \<lparr> model = ex_model_name ex, query_type = qt, query_name = qn,
                             extracted_data = data, raw_response = response_text,
                             prompt_tokens = p_tokens, completion_tokens = c_tokens,
                             total_tokens = t_tokens, extraction_time = elapsed,
                             cost_usd = float_value cost, error = None,
                             metadata = [(''stop_reason'', resp_stop_reason response),
                                         (''model_type'', ex_model_type ex)] \<rparr>, w2)
                 | Inl e \<Rightarrow>
                     (Inr (failed_extraction ex qt qn (w_clock w2 - start_time) (exc_str e)),
                      w2))
         | Inl (TimeoutError m) \<Rightarrow>
             (Inr (failed_extraction ex qt qn (w_clock w2 - start_time)
                     (''Timeout after '' @ str_nat (ex_api_timeout ex) @ ''s'')), w2)
         | Inl e \<Rightarrow>
             (Inr (failed_extraction ex qt qn (w_clock w2 - start_time) (exc_str e)), w2))"

definition openai_extract_body ::
  "extractor \<Rightarrow> backend \<Rightarrow> string \<Rightarrow> string \<Rightarrow> int \<Rightarrow> string \<Rightarrow> world
   \<Rightarrow> (py_exception + ExtractionResult) \<times> world" where
  "openai_extract_body ex service doc prompt qt qn w =
     (let w1 = acquire (ex_min_interval ex) w;
          start_time = w_clock w1;
          k = w_requests w1;
          answer = service k [prompt, ''Document text:'' @ [CHR 0x0A, CHR 0x0A] @ doc];
          w2 = w1\<lparr> w_clock := w_clock w1 + snd answer, w_requests := k + 1 \<rparr>
      in case fst answer of
           Inr response \<Rightarrow>
             (let elapsed = w_clock w2 - start_time;
                  response_text = (case resp_text response of None \<Rightarrow> [] | Some t \<Rightarrow> t);
                  data = ex_parse_json_response ex response_text;
                  p_tokens = resp_prompt_tokens response;
                  c_tokens = resp_completion_tokens response;
                  t_tokens = resp_total_tokens response
              in case calculate_cost p_tokens c_tokens (ex_model_name ex) of
                   Inr cost \<Rightarrow>
                     (Inr \<lparr> model = ex_model_name ex, query_type = qt, query_name = qn,
                             extracted_data = data, raw_response = response_text,
                             prompt_tokens = p_tokens, completion_tokens = c_tokens,
                             total_tokens = t_tokens, extraction_time = elapsed,
                             cost_usd = float_value cost, error = None,
                             metadata = [(''finish_reason'', resp_stop_reason response)] \<rparr>,
                      w2)
                 | Inl e \<Rightarrow>
                     (Inr (failed_extraction ex qt qn (w_clock w2 - start_time) (exc_str e)),
                      w2))
         | Inl (TimeoutError m) \<Rightarrow>
             (Inr (failed_extraction ex qt qn (w_clock w2 - start_time)
                     (''Timeout after '' @ str_nat (ex_api_timeout ex) @ ''s'')), w2)
         | Inl e \<Rightarrow>
             (Inr (failed_extraction ex qt qn (w_clock w2 - start_time) (exc_str e)), w2))"

definition any_exception :: "py_exception \<Rightarrow> bool" where
  "any_exception e = True"

definition claude_extract ::
  "extractor \<Rightarrow> backend \<Rightarrow> string \<Rightarrow> string \<Rightarrow> int \<Rightarrow> string \<Rightarrow> world
   \<Rightarrow> (py_exception + ExtractionResult) \<times> world" where
  "claude_extract ex service doc prompt qt qn w =
     retry3 any_exception (claude_extract_body ex service doc prompt qt qn) w"

definition openai_extract ::
  "extractor \<Rightarrow> backend \<Rightarrow> string \<Rightarrow> string \<Rightarrow> int \<Rightarrow> string \<Rightarrow> world
   \<Rightarrow> (py_exception + ExtractionResult) \<times> world" where
  "openai_extract ex service doc prompt qt qn w =
     retry3 any_exception (openai_extract_body ex service doc prompt qt qn) w"

subsection \<open>Sample extractor and backend\<close>

definition sonnet :: extractor where
  "sonnet = \<lparr> ex_model_name = ''claude-sonnet-4-20250514'', ex_model_type = ''claude-sonnet'',
              ex_min_interval = 60 / 50, ex_api_timeout = 120,
              ex_parse_json_response = (\<lambda>s. JDict [(''company'', JStr s)]) \<rparr>"

definition good_response :: llm_response where
  "good_response = \<lparr> resp_text = Some ''Acme'', resp_prompt_tokens = 1000,
                     resp_completion_tokens = 500, resp_total_tokens = 1500,
                     resp_stop_reason = ''end_turn'' \<rparr>"

definition times_out_once :: backend where
  "times_out_once k messages =
     (if k = 0 then (Inl (TimeoutError []), 120) else (Inr good_response, 3))"

section \<open>Properties of the comparator\<close>

subsection \<open>Field counting\<close>

lemma fold_add_count:
  "fold (\<lambda>x count. count + f x) xs (c::nat) = c + sum_list (map f xs)"
  by (induction xs arbitrary: c) simp_all

lemma fold_dict_count:
  "fold (\<lambda>kv count. if snd kv \<noteq> JNull then (if P kv then count + f kv else count + 1)
                      else count) kvs (c::nat)
   = c + sum_list (map (\<lambda>kv. if P kv then f kv else 1) (filter (\<lambda>kv. snd kv \<noteq> JNull) kvs))"
  by (induction kvs arbitrary: c) simp_all

lemma count_fields_keyed: "count_fields d = keyed_count_fields d"
proof (induction d rule: count_fields.induct)
  case (2 kvs)
  have eq: "map (\<lambda>kv. if is_dict_or_list (snd kv) then count_fields (snd kv) else 1)
            (filter (\<lambda>kv. snd kv \<noteq> JNull) kvs)
      = map (\<lambda>kv. if is_dict_or_list (snd kv) then keyed_count_fields (snd kv) else 1)
            (filter (\<lambda>kv. snd kv \<noteq> JNull) kvs)"
    using 2 by (intro map_cong) auto
  have "count_fields (JDict kvs)
      = sum_list (map (\<lambda>kv. if is_dict_or_list (snd kv) then count_fields (snd kv) else 1)
                      (filter (\<lambda>kv. snd kv \<noteq> JNull) kvs))"
    by (simp add: fold_dict_count [where P = "\<lambda>kv. is_dict_or_list (snd kv)"
                                      and f = "\<lambda>kv. count_fields (snd kv)"])
  also have "\<dots> = keyed_count_fields (JDict kvs)"
    unfolding eq by simp
  finally show ?case .
next
  case (3 items)
  have eq: "map count_fields items = map keyed_count_fields items"
    using 3 by (intro map_cong) auto
  have "count_fields (JList items) = sum_list (map count_fields items)"
    by (simp add: fold_add_count)
  also have "\<dots> = keyed_count_fields (JList items)"
    unfolding eq by simp
  finally show ?case .
qed simp_all

text \<open>
  C2 (as stated, refuted): by the specification's recursive definition a top-level
  scalar counts 1 and the scalars inside a sequence count directly; the code
  returns 0 for the top-level scalar 5 and for the mapping whose only value is a
  sequence of two strings.
\<close>

theorem count_fields_scalar_counterexample:
  "count_fields (JInt 5) = 0 \<and> spec_count_fields (JInt 5) = 1
   \<and> count_fields (JDict [(''tags'', JList [JStr ''x'', JStr ''y''])]) = 0
   \<and> spec_count_fields (JDict [(''tags'', JList [JStr ''x'', JStr ''y''])]) = 2"
  by simp

text \<open>
  C2 (amended): for every \<open>extracted_data\<close> value the field count computed by the
  comparator equals the recursive definition in which null counts 0, a scalar at
  top level or as an element of a sequence counts 0, a mapping counts, over its
  non-null values, 1 for a scalar value and the recursive count for a mapping or
  sequence value, and a sequence counts the sum over its elements' counts; the
  example mapping a:1, b:null, c:(d:2) counts 2.
\<close>

theorem count_fields_recursive_definition:
  "count_fields d = keyed_count_fields d \<and> count_fields example_data = 2"
  by (simp add: count_fields_keyed example_data_def)

subsection \<open>Completeness\<close>

lemma falsy_count_fields: "\<not> truthy d \<Longrightarrow> count_fields d = 0"
  by (cases d) simp_all

lemma expected_cases:
  "dict_get get_expected_field_counts qt 50 =
     (if qt = 1 then 15 else if qt = 2 then 50 else if qt = 3 then 40
      else if qt = 4 then 60 else if qt = 5 then 70 else 50)"
  by (simp add: dict_get_def get_expected_field_counts_def)

lemma expected_pos: "0 < dict_get get_expected_field_counts qt 50"
  by (simp add: expected_cases)

lemma metrics_of_fields: "fields_extracted (metrics_of r) = count_fields (extracted_data r)"
  by (simp add: metrics_of_def Let_def falsy_count_fields)

lemma metrics_of_total:
  "total_fields_possible (metrics_of r) = dict_get get_expected_field_counts (query_type r) 50"
  by (simp add: metrics_of_def Let_def)

lemma metrics_of_completeness:
  "completeness_score (metrics_of r) =
     min (real (count_fields (extracted_data r))
          / real_of_int (dict_get get_expected_field_counts (query_type r) 50)) 1"
  using expected_pos [of "query_type r"]
  by (simp add: metrics_of_def Let_def falsy_count_fields)

lemma calculate_metrics_map: "calculate_metrics rs = map metrics_of rs"
  by (induction rs) simp_all

lemma completeness_range:
  "0 \<le> completeness_score (metrics_of r) \<and> completeness_score (metrics_of r) \<le> 1"
  using expected_pos [of "query_type r"]
  by (simp add: metrics_of_completeness)

lemma completeness_capped:
  "dict_get get_expected_field_counts (query_type r) 50 < int (count_fields (extracted_data r))
   \<Longrightarrow> completeness_score (metrics_of r) = 1"
  using expected_pos [of "query_type r"]
  by (simp add: metrics_of_completeness min_def)

text \<open>
  C3: for every accumulated \<open>ExtractionResult\<close> (a result that satisfies the
  invariant of the data model), the metrics entry at the same position has a
  completeness score equal to the extracted-field count divided by the expected
  field count of its query type (15, 50, 40, 60, 70 for types 1 to 5, 50 for any
  other type), capped at 1, hence in [0,1]; a field count greater than the table
  entry yields exactly 1; and a result with \<open>error\<close> set yields zero extracted
  fields and zero completeness.
\<close>

theorem calculate_metrics_completeness:
  "i < length results \<Longrightarrow> ExtractionResult_invariant (results ! i) \<Longrightarrow>
     (let r = results ! i; m = calculate_metrics results ! i;
          n = count_fields (extracted_data r);
          e = dict_get get_expected_field_counts (query_type r) 50
      in length (calculate_metrics results) = length results
         \<and> e = (if query_type r = 1 then 15 else if query_type r = 2 then 50
                else if query_type r = 3 then 40 else if query_type r = 4 then 60
                else if query_type r = 5 then 70 else 50)
         \<and> fields_extracted m = n \<and> total_fields_possible m = e
         \<and> completeness_score m = min (real n / real_of_int e) 1
         \<and> 0 \<le> completeness_score m \<and> completeness_score m \<le> 1
         \<and> (e < int n \<longrightarrow> completeness_score m = 1)
         \<and> (error r \<noteq> None \<longrightarrow> fields_extracted m = 0 \<and> completeness_score m = 0))"
  unfolding Let_def calculate_metrics_map ExtractionResult_invariant_def
  using completeness_range [of "results ! i"] completeness_capped [of "results ! i"]
  by (auto simp add: metrics_of_fields metrics_of_total metrics_of_completeness
        expected_cases [symmetric])

lemma many_count: "count_fields (extracted_data many_fields_result) = 16"
  by (simp add: many_fields_result_def ExtractionResult_default_def eval_nat_numeral)

theorem calculate_metrics_completeness_witness:
  "ExtractionResult_invariant many_fields_result \<and> ExtractionResult_invariant timeout_result
   \<and> error timeout_result = Some ''Timeout''
   \<and> completeness_score (calculate_metrics [many_fields_result, timeout_result] ! 0) = 1
   \<and> completeness_score (calculate_metrics [many_fields_result, timeout_result] ! 1) = 0"
proof -
  let ?rs = "[many_fields_result, timeout_result]"
  have q: "query_type many_fields_result = 1"
    by (simp add: many_fields_result_def ExtractionResult_default_def)
  have i0: "ExtractionResult_invariant many_fields_result"
    by (simp add: ExtractionResult_invariant_def many_fields_result_def ExtractionResult_default_def)
  have i1: "ExtractionResult_invariant timeout_result"
    by (simp add: ExtractionResult_invariant_def timeout_result_def ExtractionResult_default_def)
  have e: "error timeout_result = Some ''Timeout''"
    by (simp add: timeout_result_def ExtractionResult_default_def)
  have a: "completeness_score (calculate_metrics ?rs ! 0) = 1"
    using calculate_metrics_completeness [of 0 ?rs] many_count q i0
    by (simp add: Let_def)
  have b: "completeness_score (calculate_metrics ?rs ! 1) = 0"
    using calculate_metrics_completeness [of 1 ?rs] i1 e
    by (simp add: Let_def)
  from i0 i1 e a b show ?thesis by simp
qed

subsection \<open>Summary statistics\<close>

lemma map_of_map_update:
  "map_of (map (\<lambda>kl. if fst kl = k then (fst kl, f (snd kl)) else kl) d) k'
   = (if k' = k then map_option f (map_of d k) else map_of d k')"
  by (induction d) auto

lemma map_of_snoc_fresh:
  "k \<notin> set (map fst d) \<Longrightarrow> map_of (d @ [(k, v)]) k' = (if k' = k then Some v else map_of d k')"
  by (induction d) auto

lemma map_of_dict_append:
  "map_of (dict_append d k v) k'
   = (if k' = k then Some ((case map_of d k of None \<Rightarrow> [] | Some l \<Rightarrow> l) @ [v])
      else map_of d k')"
proof (cases "k \<in> set (map fst d)")
  case True
  then obtain l where "map_of d k = Some l"
    by (metis map_of_eq_None_iff not_Some_eq set_map)
  with True show ?thesis
    by (simp add: dict_append_def map_of_map_update [where f = "\<lambda>l. l @ [v]"] del: set_map)
next
  case False
  let ?d' = "d @ [(k, [])]"
  have none: "map_of d k = None" using False by (simp add: map_of_eq_None_iff)
  have da: "dict_append d k v
            = map (\<lambda>kl. if fst kl = k then (fst kl, snd kl @ [v]) else kl) ?d'"
    using False by (simp add: dict_append_def del: set_map map_append)
  have "map_of (dict_append d k v) k'
        = (if k' = k then map_option (\<lambda>l. l @ [v]) (map_of ?d' k) else map_of ?d' k')"
    unfolding da by (rule map_of_map_update [where f = "\<lambda>l. l @ [v]"])
  also have "\<dots> = (if k' = k then Some [v] else map_of d k')"
    using False by (simp add: map_of_snoc_fresh del: map_of_append)
  finally show ?thesis using none by simp
qed

lemma keys_dict_append:
  "map fst (dict_append d k v) = (if k \<in> set (map fst d) then map fst d else map fst d @ [k])"
proof -
  have "map fst (map (\<lambda>kl. if fst kl = k then (fst kl, snd kl @ [v]) else kl) d') = map fst d'" for d' :: "('a \<times> 'b list) list"
    by (induction d') auto
  then show ?thesis by (simp add: dict_append_def Let_def del: set_map)
qed

lemma distinct_dict_append:
  "distinct (map fst d) \<Longrightarrow> distinct (map fst (dict_append d k v))"
  by (simp add: keys_dict_append del: set_map)

lemma fold_dict_append:
  "map_of (fold (\<lambda>m by_model. dict_append by_model (kf m) m) ms d) k
   = (if filter (\<lambda>m. kf m = k) ms = [] then map_of d k
      else Some ((case map_of d k of None \<Rightarrow> [] | Some l \<Rightarrow> l) @ filter (\<lambda>m. kf m = k) ms))"
proof (induction ms arbitrary: d)
  case Nil
  show ?case by simp
next
  case (Cons a ms)
  show ?case
    by (simp add: Cons [of "dict_append d (kf a) a"] map_of_dict_append)
qed

lemma fold_dict_append_distinct:
  "distinct (map fst d) \<Longrightarrow>
   distinct (map fst (fold (\<lambda>m by_model. dict_append by_model (kf m) m) ms d))"
  by (induction ms arbitrary: d) (simp_all add: distinct_dict_append)

lemma map_of_group_by_model:
  "map_of (group_by_model ms) k
   = (if filter (\<lambda>m. model_key (cm_model m) = k) ms = [] then None
      else Some (filter (\<lambda>m. model_key (cm_model m) = k) ms))"
  unfolding group_by_model_def
  by (simp add: fold_dict_append [where kf = "\<lambda>m. model_key (cm_model m)"])

lemma distinct_group_by_model: "distinct (map fst (group_by_model ms))"
  unfolding group_by_model_def
  by (rule fold_dict_append_distinct) simp

lemma map_of_dict_set:
  "map_of (dict_set d k v) k' = (if k' = k then Some v else map_of d k')"
proof (cases "k \<in> set (map fst d)")
  case True
  have "map_of (map (\<lambda>kv. if fst kv = k then (k, v) else kv) d) k'
        = (if k' = k then map_option (\<lambda>_. v) (map_of d k) else map_of d k')"
    by (induction d) auto
  moreover from True obtain l where "map_of d k = Some l"
    by (metis map_of_eq_None_iff not_Some_eq set_map)
  ultimately show ?thesis using True by (simp add: dict_set_def del: set_map)
next
  case False
  then show ?thesis by (simp add: dict_set_def map_of_snoc_fresh del: set_map map_of_append)
qed

lemma stats_entry_ok:
  "filter (\<lambda>m. \<not> truthy_str (cm_error m)) mm \<noteq> [] \<Longrightarrow>
   stats_entry (filter (\<lambda>m. \<not> truthy_str (cm_error m)) mm) mm = Inr (group_summary mm)"
  using sum_length_filter_compl [of "\<lambda>m. truthy_str (cm_error m)" mm]
  by (simp add: stats_entry_def py_truediv_def group_summary_def Let_def)

lemma summarise_total:
  "distinct (map fst bm) \<Longrightarrow>
   \<exists>S. summarise bm S0 = Inr S
      \<and> (\<forall>k. map_of S k =
            (case map_of bm k of
               None \<Rightarrow> map_of S0 k
             | Some mm \<Rightarrow> if filter (\<lambda>m. \<not> truthy_str (cm_error m)) mm = [] then map_of S0 k
                          else Some (group_summary mm)))"
proof (induction bm arbitrary: S0)
  case Nil
  show ?case by simp
next
  case (Cons e rest)
  from Cons.prems have d: "distinct (map fst rest)" and fresh: "map_of rest (fst e) = None"
    by (simp_all add: map_of_eq_None_iff)
  let ?ok = "filter (\<lambda>m. \<not> truthy_str (cm_error m)) (snd e)"
  show ?case
  proof (cases "?ok = []")
    case True
    from Cons.IH [OF d, of S0] obtain S where S: "summarise rest S0 = Inr S"
      "\<forall>k. map_of S k = (case map_of rest k of None \<Rightarrow> map_of S0 k
             | Some mm \<Rightarrow> if filter (\<lambda>m. \<not> truthy_str (cm_error m)) mm = [] then map_of S0 k
                          else Some (group_summary mm))" by blast
    have "summarise (e # rest) S0 = Inr S" using True S(1) by simp
    moreover have "map_of S k = (case map_of (e # rest) k of None \<Rightarrow> map_of S0 k
             | Some mm \<Rightarrow> if filter (\<lambda>m. \<not> truthy_str (cm_error m)) mm = [] then map_of S0 k
                          else Some (group_summary mm))" for k
      using S(2) True fresh by (cases e) auto
    ultimately show ?thesis by blast
  next
    case False
    let ?S1 = "dict_set S0 (fst e) (group_summary (snd e))"
    from Cons.IH [OF d, of ?S1] obtain S where S: "summarise rest ?S1 = Inr S"
      "\<forall>k. map_of S k = (case map_of rest k of None \<Rightarrow> map_of ?S1 k
             | Some mm \<Rightarrow> if filter (\<lambda>m. \<not> truthy_str (cm_error m)) mm = [] then map_of ?S1 k
                          else Some (group_summary mm))" by blast
    have "summarise (e # rest) S0 = Inr S"
      using False S(1) stats_entry_ok [OF False] by simp
    moreover have "map_of S k = (case map_of (e # rest) k of None \<Rightarrow> map_of S0 k
             | Some mm \<Rightarrow> if filter (\<lambda>m. \<not> truthy_str (cm_error m)) mm = [] then map_of S0 k
                          else Some (group_summary mm))" for k
    proof (cases "k = fst e")
      case True
      with S(2) fresh False show ?thesis by (cases e) (simp add: map_of_dict_set)
    next
      case neq: False
      then show ?thesis using S(2) by (cases e) (auto simp: map_of_dict_set split: option.splits)
    qed
    ultimately show ?thesis by blast
  qed
qed

lemma keys_dict_set:
  "map fst (dict_set d k v) = (if k \<in> set (map fst d) then map fst d else map fst d @ [k])"
proof -
  have "map fst (map (\<lambda>kv. if fst kv = k then (k, v) else kv) d) = map fst d"
    by (induction d) auto
  then show ?thesis by (simp add: dict_set_def del: set_map)
qed

lemma summarise_distinct:
  "distinct (map fst S0) \<Longrightarrow> summarise bm S0 = Inr S \<Longrightarrow> distinct (map fst S)"
proof (induction bm arbitrary: S0)
  case Nil
  then show ?case by simp
next
  case (Cons e rest)
  show ?case
  proof (cases "filter (\<lambda>m. \<not> truthy_str (cm_error m)) (snd e) = []")
    case True
    with Cons.prems Cons.IH [of S0] show ?thesis by simp
  next
    case False
    let ?S1 = "dict_set S0 (fst e) (group_summary (snd e))"
    have "distinct (map fst ?S1)" using Cons.prems(1) by (simp add: keys_dict_set del: set_map)
    moreover have "summarise rest ?S1 = Inr S"
      using Cons.prems(2) False stats_entry_ok [OF False] by simp
    ultimately show ?thesis by (rule Cons.IH)
  qed
qed

lemma expected_summary_entry_alt:
  "expected_summary_entry ms k =
     (if filter (\<lambda>m. \<not> truthy_str (cm_error m)) (filter (\<lambda>m. model_key (cm_model m) = k) ms) = []
      then None else Some (group_summary (filter (\<lambda>m. model_key (cm_model m) = k) ms)))"
  by (simp add: expected_summary_entry_def Let_def)

text \<open>
  C4 (as stated, refuted): the summary tests \<open>not m.error\<close>, so a result whose
  \<open>error\<close> is set to the empty string is averaged as a success, is not counted as
  failed, and its group is kept.
\<close>

theorem empty_error_counterexample:
  "error empty_error_result = Some []
   \<and> generate_summary_stats [empty_error_result]
       = Inr [(''m'', \<lparr> avg_completeness = 0, avg_time = 2, stat_total_tokens = 0,
                        total_cost = 0, successful_extractions = 1,
                        failed_extractions = 0 \<rparr>)]"
  by (simp add: empty_error_result_def ExtractionResult_default_def generate_summary_stats_def
        metrics_of_def dict_get_def get_expected_field_counts_def group_by_model_def
        dict_append_def model_key_def stats_entry_def py_truediv_def dict_set_def)

text \<open>
  C4 (amended): \<open>generate_summary_stats\<close> always returns a summary, never a division
  error. For every model key, the means of completeness and time and the totals of
  tokens and cost are computed only over the group's results whose \<open>error\<close> is
  \<open>None\<close> or the empty string; a result whose \<open>error\<close> is a non-empty string is left
  out of them and counted in \<open>failed_extractions\<close>; a group in which every result
  has a non-empty error has no entry in the summary.
\<close>

theorem generate_summary_stats_groups:
  "\<exists>summary. generate_summary_stats results = Inr summary
      \<and> distinct (map fst summary)
      \<and> (\<forall>k. map_of summary k = expected_summary_entry (calculate_metrics results) k)"
proof (cases "calculate_metrics results = []")
  case True
  then show ?thesis
    by (simp add: generate_summary_stats_def expected_summary_entry_def)
next
  case False
  let ?ms = "calculate_metrics results"
  from summarise_total [OF distinct_group_by_model, of ?ms "[]"]
  obtain S where S: "summarise (group_by_model ?ms) [] = Inr S"
    "\<forall>k. map_of S k = (case map_of (group_by_model ?ms) k of None \<Rightarrow> map_of [] k
             | Some mm \<Rightarrow> if filter (\<lambda>m. \<not> truthy_str (cm_error m)) mm = [] then map_of [] k
                          else Some (group_summary mm))" by blast
  have "generate_summary_stats results = Inr S"
    using False S(1) by (simp add: generate_summary_stats_def)
  moreover have "map_of S k = expected_summary_entry ?ms k" for k
    using S(2) by (simp add: map_of_group_by_model expected_summary_entry_alt del: filter_filter)
  moreover have "distinct (map fst S)"
    using summarise_distinct [OF _ S(1)] by simp
  ultimately show ?thesis by blast
qed

subsection \<open>Comparison of one query across models\<close>

lemma fold_max_first:
  "fold (\<lambda>y best. if key y > key best then y else best) rest (x::'a) \<in> set (x # rest)
   \<and> (\<forall>y \<in> set (x # rest).
         (key y :: real) \<le> key (fold (\<lambda>y best. if key y > key best then y else best) rest x))"
proof (induction rest arbitrary: x)
  case Nil
  show ?case by simp
next
  case (Cons a rest)
  show ?case
  proof (cases "key a > key x")
    case True
    with Cons [of a] show ?thesis by force
  next
    case False
    with Cons [of x] show ?thesis by force
  qed
qed

lemma fold_min_first:
  "fold (\<lambda>y best. if key y < key best then y else best) rest (x::'a) \<in> set (x # rest)
   \<and> (\<forall>y \<in> set (x # rest).
         (key (fold (\<lambda>y best. if key y < key best then y else best) rest x) :: real) \<le> key y)"
proof (induction rest arbitrary: x)
  case Nil
  show ?case by simp
next
  case (Cons a rest)
  show ?case
  proof (cases "key a < key x")
    case True
    with Cons [of a] show ?thesis by force
  next
    case False
    with Cons [of x] show ?thesis by force
  qed
qed

lemma py_max_by_nonempty:
  "xs \<noteq> [] \<Longrightarrow> \<exists>b. py_max_by key xs = Inr b \<and> b \<in> set xs \<and> (\<forall>y \<in> set xs. key y \<le> key b)"
  using fold_max_first [of key "tl xs" "hd xs"]
  by (cases xs) (simp_all add: py_max_by_def)

lemma py_min_by_nonempty:
  "xs \<noteq> [] \<Longrightarrow> \<exists>b. py_min_by key xs = Inr b \<and> b \<in> set xs \<and> (\<forall>y \<in> set xs. key b \<le> key y)"
  using fold_min_first [of key "tl xs" "hd xs"]
  by (cases xs) (simp_all add: py_min_by_def)

text \<open>
  C10: \<open>compare_single_query_results\<close> raises on an empty list of results (the
  \<open>ValueError\<close> of \<open>max\<close> on an empty sequence); on a non-empty list it returns a
  comparison whose \<open>best_by_completeness\<close> is the model of a metrics entry of
  maximal completeness score, whose \<open>best_by_cost\<close> is the model of an entry of
  minimal cost and whose \<open>best_by_speed\<close> is the model of an entry of minimal time.
\<close>

theorem compare_single_query_results_partial:
  "compare_single_query_results [] qt = Inl (ValueError ''max() arg is an empty sequence'')
   \<and> (results \<noteq> [] \<longrightarrow>
        (\<exists>c. compare_single_query_results results qt = Inr c
           \<and> cmp_query_type c = qt \<and> models_compared c = length results
           \<and> (\<exists>m \<in> set (calculate_metrics results).
                 best_by_completeness c = cm_model m
                 \<and> (\<forall>m' \<in> set (calculate_metrics results).
                       completeness_score m' \<le> completeness_score m))
           \<and> (\<exists>m \<in> set (calculate_metrics results).
                 best_by_cost c = cm_model m
                 \<and> (\<forall>m' \<in> set (calculate_metrics results). cm_cost_usd m \<le> cm_cost_usd m'))
           \<and> (\<exists>m \<in> set (calculate_metrics results).
                 best_by_speed c = cm_model m
                 \<and> (\<forall>m' \<in> set (calculate_metrics results).
                       cm_extraction_time m \<le> cm_extraction_time m'))))"
proof (intro conjI impI)
  show "compare_single_query_results [] qt = Inl (ValueError ''max() arg is an empty sequence'')"
    by (simp add: compare_single_query_results_def py_max_by_def)
next
  assume ne: "results \<noteq> []"
  let ?ms = "calculate_metrics results"
  from ne have mne: "?ms \<noteq> []" by (simp add: calculate_metrics_map)
  from py_max_by_nonempty [OF mne, of completeness_score]
  obtain bc where bc: "py_max_by completeness_score ?ms = Inr bc" "bc \<in> set ?ms"
    "\<forall>y \<in> set ?ms. completeness_score y \<le> completeness_score bc" by blast
  from py_min_by_nonempty [OF mne, of cm_cost_usd]
  obtain bk where bk: "py_min_by cm_cost_usd ?ms = Inr bk" "bk \<in> set ?ms"
    "\<forall>y \<in> set ?ms. cm_cost_usd bk \<le> cm_cost_usd y" by blast
  from py_min_by_nonempty [OF mne, of cm_extraction_time]
  obtain bs where bs: "py_min_by cm_extraction_time ?ms = Inr bs" "bs \<in> set ?ms"
    "\<forall>y \<in> set ?ms. cm_extraction_time bs \<le> cm_extraction_time y" by blast
  have "compare_single_query_results results qt =
          Inr \<lparr> cmp_query_type = qt, models_compared = length results,
                cmp_metrics = map (\<lambda>m. \<lparr> row_model = cm_model m, row_completeness = completeness_score m,
                             row_time = cm_extraction_time m, row_cost = cm_cost_usd m,
                             row_tokens = cm_total_tokens m \<rparr>) ?ms,
                best_by_completeness = cm_model bc,
                best_by_cost = cm_model bk, best_by_speed = cm_model bs \<rparr>"
    by (simp add: compare_single_query_results_def Let_def bc(1) bk(1) bs(1))
  with bc(2,3) bk(2,3) bs(2,3)
  show "\<exists>c. compare_single_query_results results qt = Inr c
           \<and> cmp_query_type c = qt \<and> models_compared c = length results
           \<and> (\<exists>m \<in> set (calculate_metrics results).
                 best_by_completeness c = cm_model m
                 \<and> (\<forall>m' \<in> set (calculate_metrics results).
                       completeness_score m' \<le> completeness_score m))
           \<and> (\<exists>m \<in> set (calculate_metrics results).
                 best_by_cost c = cm_model m
                 \<and> (\<forall>m' \<in> set (calculate_metrics results). cm_cost_usd m \<le> cm_cost_usd m'))
           \<and> (\<exists>m \<in> set (calculate_metrics results).
                 best_by_speed c = cm_model m
                 \<and> (\<forall>m' \<in> set (calculate_metrics results).
                       cm_extraction_time m \<le> cm_extraction_time m'))"
    by auto
qed

theorem compare_single_query_results_witness:
  "sample_results \<noteq> []
   \<and> (\<exists>c. compare_single_query_results sample_results 1 = Inr c
         \<and> best_by_completeness c = ''claude-sonnet'' \<and> best_by_cost c = ''claude-haiku''
         \<and> best_by_speed c = ''claude-haiku''
         \<and> (\<exists>m \<in> set (calculate_metrics sample_results).
                 best_by_completeness c = cm_model m
                 \<and> (\<forall>m' \<in> set (calculate_metrics sample_results).
                       completeness_score m' \<le> completeness_score m)))"
proof -
  have ne: "sample_results \<noteq> []" by (simp add: sample_results_def)
  have ev: "compare_single_query_results sample_results 1 = Inr c \<Longrightarrow>
          best_by_completeness c = ''claude-sonnet'' \<and> best_by_cost c = ''claude-haiku''
         \<and> best_by_speed c = ''claude-haiku''" for c
    by (auto simp add: sample_results_def ExtractionResult_default_def
          compare_single_query_results_def metrics_of_def dict_get_def
          get_expected_field_counts_def py_max_by_def py_min_by_def)
  from compare_single_query_results_partial [of 1 sample_results] ne
  obtain c where c: "compare_single_query_results sample_results 1 = Inr c"
    "\<exists>m \<in> set (calculate_metrics sample_results).
                 best_by_completeness c = cm_model m
                 \<and> (\<forall>m' \<in> set (calculate_metrics sample_results).
                       completeness_score m' \<le> completeness_score m)"
    by blast
  with ev [OF c(1)] ne show ?thesis by blast
qed

section \<open>Properties of the cost computation\<close>

lemma lower_char_upper:
  "65 \<le> (of_char c :: nat) \<Longrightarrow> (of_char c :: nat) \<le> 90 \<Longrightarrow> of_char (lower_char c) = (of_char c :: nat) + 32"
  by (cases c) (auto simp: lower_char_def Let_def of_bool_def split: if_splits)

lemma starts_with_prefix: "starts_with p s = (\<exists>r. s = p @ r)"
  by (induction p s rule: starts_with.induct) auto

lemma contains_iff: "contains sub s = (\<exists>pre post. s = pre @ sub @ post)"
proof (induction s)
  case Nil
  show ?case by auto
next
  case (Cons x xs)
  show ?case
  proof
    assume "contains sub (x # xs)"
    then consider "starts_with sub (x # xs)" | "contains sub xs" by auto
    then show "\<exists>pre post. x # xs = pre @ sub @ post"
    proof cases
      case 1
      then obtain r where "x # xs = sub @ r" by (auto simp: starts_with_prefix)
      then have "x # xs = [] @ sub @ r" by simp
      then show ?thesis by blast
    next
      case 2
      with Cons obtain pre post where "xs = pre @ sub @ post" by blast
      then have "x # xs = (x # pre) @ sub @ post" by simp
      then show ?thesis by blast
    qed
  next
    assume "\<exists>pre post. x # xs = pre @ sub @ post"
    then obtain pre post where e: "x # xs = pre @ sub @ post" by blast
    show "contains sub (x # xs)"
    proof (cases pre)
      case Nil
      with e have "starts_with sub (x # xs)" by (auto simp: starts_with_prefix)
      then show ?thesis by simp
    next
      case (Cons a pre')
      with e have "xs = pre' @ sub @ post" by simp
      with Cons.IH have "contains sub xs" by blast
      then show ?thesis by simp
    qed
  qed
qed

subsection \<open>Rounding to a double\<close>

lemma round_half_even_near: "\<bar>of_int (round_half_even x) - x\<bar> \<le> 1 / 2"
  unfolding round_half_even_def Let_def by (auto simp: abs_if) linarith+

lemma round_half_even_unique:
  assumes "\<bar>of_int k - x\<bar> < 1 / 2"
  shows "round_half_even x = k"
proof -
  have "\<bar>of_int (round_half_even x) - x\<bar> \<le> 1 / 2" by (rule round_half_even_near)
  with assms have "\<bar>(of_int (round_half_even x) :: rat) - of_int k\<bar> < 1" by linarith
  then have "\<bar>(of_int (round_half_even x - k) :: rat)\<bar> < 1" by simp
  then have "\<bar>round_half_even x - k\<bar> < 1"
    by (metis of_int_abs of_int_less_1_iff)
  then show ?thesis by linarith
qed

lemma round_half_even_of_int: "round_half_even (of_int k) = k"
  by (rule round_half_even_unique) simp

lemma round_half_even_tie:
  assumes "\<bar>of_int k - x\<bar> = 1 / 2" "even k"
  shows "round_half_even x = k"
proof -
  from assms(1) consider "x = of_int k + 1 / 2" | "x = of_int k - 1 / 2"
    by (auto simp: abs_if split: if_splits)
  then show ?thesis
  proof cases
    case 1
    then have f: "\<lfloor>x\<rfloor> = k" by (simp add: floor_unique)
    with 1 assms(2) show ?thesis by (simp add: round_half_even_def Let_def)
  next
    case 2
    then have f: "\<lfloor>x\<rfloor> = k - 1" by (simp add: floor_unique)
    with 2 assms(2) show ?thesis by (simp add: round_half_even_def Let_def)
  qed
qed

lemma round_half_even_eq:
  assumes "\<bar>of_int k - x\<bar> < 1 / 2 \<or> (\<bar>of_int k - x\<bar> = 1 / 2 \<and> even k)"
  shows "round_half_even x = k"
  using assms round_half_even_unique [of k x] round_half_even_tie [of k x] by blast

lemma round_half_even_even:
  "\<bar>of_int (round_half_even x) - x\<bar> = 1 / 2 \<Longrightarrow> even (round_half_even x)"
  unfolding round_half_even_def Let_def
  by (auto simp: abs_if split: if_splits) linarith+

lemma exponent_bounds:
  assumes "0 < a"
  shows "2 powi (exponent a) \<le> a \<and> a < 2 powi (exponent a + 1)"
proof -
  obtain p q where pq: "quotient_of a = (p, q)" by (cases "quotient_of a")
  then have q: "0 < q" by (rule quotient_of_denom_pos)
  from pq have a: "a = of_int p / of_int q" by (rule quotient_of_div)
  with assms q have p: "0 < p" by (simp add: zero_less_divide_iff)
  let ?bp = "bitlen p" and ?bq = "bitlen q"
  from bitlen_bounds [OF p] have p1: "2 ^ nat (?bp - 1) \<le> p" and p2: "p < 2 ^ nat ?bp" by auto
  from bitlen_bounds [OF q] have q1: "2 ^ nat (?bq - 1) \<le> q" and q2: "q < 2 ^ nat ?bq" by auto
  have bp: "1 \<le> ?bp" using p by (simp add: bitlen_alt_def)
  have bq: "1 \<le> ?bq" using q by (simp add: bitlen_alt_def)
  have P1: "(2::rat) powi (?bp - 1) \<le> of_int p"
  proof -
    have "(2::rat) powi (?bp - 1) = 2 ^ nat (?bp - 1)" using bp by (simp add: power_int_def)
    also have "\<dots> = of_int (2 ^ nat (?bp - 1))" by simp
    also have "\<dots> \<le> of_int p" using p1 by (simp only: of_int_le_iff)
    finally show ?thesis .
  qed
  have P2: "of_int p < (2::rat) powi ?bp"
  proof -
    have "(of_int p :: rat) < of_int (2 ^ nat ?bp)" using p2 by (simp only: of_int_less_iff)
    also have "\<dots> = 2 ^ nat ?bp" by simp
    also have "\<dots> = 2 powi ?bp" using bp by (simp add: power_int_def)
    finally show ?thesis .
  qed
  have Q1: "(2::rat) powi (?bq - 1) \<le> of_int q"
  proof -
    have "(2::rat) powi (?bq - 1) = 2 ^ nat (?bq - 1)" using bq by (simp add: power_int_def)
    also have "\<dots> = of_int (2 ^ nat (?bq - 1))" by simp
    also have "\<dots> \<le> of_int q" using q1 by (simp only: of_int_le_iff)
    finally show ?thesis .
  qed
  have Q2: "of_int q < (2::rat) powi ?bq"
  proof -
    have "(of_int q :: rat) < of_int (2 ^ nat ?bq)" using q2 by (simp only: of_int_less_iff)
    also have "\<dots> = 2 ^ nat ?bq" by simp
    also have "\<dots> = 2 powi ?bq" using bq by (simp add: power_int_def)
    finally show ?thesis .
  qed
  have qpos: "(0::rat) < of_int q" using q by simp
  have upper: "a < 2 powi (?bp - ?bq + 1)"
  proof -
    have "of_int p < (2::rat) powi ?bp" by (rule P2)
    also have "\<dots> = 2 powi (?bp - ?bq + 1) * 2 powi (?bq - 1)"
      by (simp flip: power_int_add)
    also have "\<dots> \<le> 2 powi (?bp - ?bq + 1) * of_int q"
      using Q1 by (intro mult_left_mono) (auto intro: less_imp_le zero_less_power_int)
    finally show ?thesis using qpos by (simp add: a pos_divide_less_eq)
  qed
  have lower: "2 powi (?bp - ?bq - 1) \<le> a"
  proof -
    have "(2::rat) powi (?bp - ?bq - 1) * of_int q \<le> 2 powi (?bp - ?bq - 1) * 2 powi ?bq"
      using Q2 by (intro mult_left_mono) (auto intro: less_imp_le zero_less_power_int)
    also have "\<dots> = 2 powi (?bp - 1)" by (simp flip: power_int_add)
    also have "\<dots> \<le> of_int p" by (rule P1)
    finally show ?thesis using qpos by (simp add: a pos_le_divide_eq)
  qed
  show ?thesis
  proof (cases "2 powi (?bp - ?bq) \<le> a")
    case True
    then have "exponent a = ?bp - ?bq" by (simp add: exponent_def pq)
    with True upper show ?thesis by simp
  next
    case False
    then have "exponent a = ?bp - ?bq - 1" by (simp add: exponent_def pq)
    with False lower show ?thesis by simp
  qed
qed

lemma exponent_unique:
  assumes "2 powi e \<le> a" "a < 2 powi (e + 1)"
  shows "exponent a = e"
proof -
  have "(0::rat) < 2 powi e" by (simp add: zero_less_power_int)
  with assms have pos: "0 < a" by linarith
  from exponent_bounds [OF pos]
  have b1: "2 powi (exponent a) \<le> a" and b2: "a < 2 powi (exponent a + 1)" by auto
  have "\<not> exponent a < e"
  proof
    assume "exponent a < e"
    then have "exponent a + 1 \<le> e" by simp
    then have "(2::rat) powi (exponent a + 1) \<le> 2 powi e" by (intro power_int_increasing) auto
    with b2 assms(1) show False by linarith
  qed
  moreover have "\<not> e < exponent a"
  proof
    assume "e < exponent a"
    then have "e + 1 \<le> exponent a" by simp
    then have "(2::rat) powi (e + 1) \<le> 2 powi (exponent a)" by (intro power_int_increasing) auto
    with b1 assms(2) show False by linarith
  qed
  ultimately show ?thesis by linarith
qed

text \<open>
  The value of \<open>double\<close> at a positive rational, from its exponent and the
  nearest mantissa.
\<close>

lemma double_normal:
  assumes "2 powi e \<le> a" "a < 2 powi (e + 1)" "- 1022 \<le> e"
    and "\<bar>of_int n - a / 2 powi (e - 52)\<bar> < 1 / 2
         \<or> (\<bar>of_int n - a / 2 powi (e - 52)\<bar> = 1 / 2 \<and> even n)"
    and "of_int n * 2 powi (e - 52) < (2::rat) powi 1024"
  shows "double a = Fin (of_int n * 2 powi (e - 52))"
proof -
  have "(0::rat) < 2 powi e" by (simp add: zero_less_power_int)
  with assms have pos: "0 < a" by linarith
  have e: "exponent a = e" using assms(1,2) by (rule exponent_unique)
  have r: "round_half_even (a / 2 powi (e - 52)) = n"
    using assms(4) by (rule round_half_even_eq)
  have m: "max (exponent a) (- 1022) = e" using e assms(3) by simp
  have ab: "\<bar>a\<bar> = a" using pos by simp
  have nz: "a \<noteq> 0" using pos by simp
  have no: "\<not> (2::rat) powi 1024 \<le> of_int n * 2 powi (e - 52)" using assms(5) by simp
  show ?thesis unfolding double_def Let_def ab m r using nz no pos by (simp only: if_False if_True)
qed

subsection \<open>The cost at sample inputs\<close>

lemma cost_haiku_1_1:
  "calculate_cost 1 1 ''claude-3-5-haiku-20241022'' = Inr (Fin (4722366482869645 / 4722366482869645213696))"
proof -
  have d0: "double (1 / 1000000) = Fin (4722366482869645 / 4722366482869645213696)"
    using double_normal [of "-20" "1 / 1000000" 4722366482869645] by simp
  have d2: "double (4722366482869645 / 18889465931478580854784) = Fin (4722366482869645 / 18889465931478580854784)"
    using double_normal [of "-22" "4722366482869645 / 18889465931478580854784" 4722366482869645] by simp
  have d3: "double (23611832414348225 / 18889465931478580854784) = Fin (368934881474191 / 295147905179352825856)"
    using double_normal [of "-20" "23611832414348225 / 18889465931478580854784" 5902958103587056] by simp
  have d4: "double (28334198897217869 / 18889465931478580854784) = Fin (7083549724304467 / 4722366482869645213696)"
    using double_normal [of "-20" "28334198897217869 / 18889465931478580854784" 7083549724304467] by simp
  have k: "round_half_even (110680464442257296875 / 73786976294838206464) = 1"
    using round_half_even_eq [of 1 "110680464442257296875 / 73786976294838206464"] by simp
  have m: "model_category ''claude-3-5-haiku-20241022'' = Some ''claude-haiku''"
    by (simp add: model_category_def lower_def lower_char_def)
  show ?thesis
    by (simp add: calculate_cost_def m pricing_def int_true_divide_def py_round_def k d0 d2 d3 d4)
qed

lemma cost_haiku_1000_306:
  "calculate_cost 1000 306 ''claude-3-5-haiku-20241022'' = Inr (Fin (5838394499329073 / 9223372036854775808))"
proof -
  have d0: "double (1 / 1000) = Fin (1152921504606847 / 1152921504606846976)"
    using double_normal [of "-10" "1 / 1000" 4611686018427388] by simp
  have d1: "double (153 / 500000) = Fin (5644703686555123 / 18446744073709551616)"
    using double_normal [of "-12" "153 / 500000" 5644703686555123] by simp
  have d2: "double (1152921504606847 / 4611686018427387904) = Fin (1152921504606847 / 4611686018427387904)"
    using double_normal [of "-12" "1152921504606847 / 4611686018427387904" 4611686018427388] by simp
  have d3: "double (28223518432775615 / 73786976294838206464) = Fin (440992475512119 / 1152921504606846976)"
    using double_normal [of "-12" "28223518432775615 / 73786976294838206464" 7055879608193904] by simp
  have d4: "double (2916891406655323 / 4611686018427387904) = Fin (2916891406655323 / 4611686018427387904)"
    using double_normal [of "-11" "2916891406655323 / 4611686018427387904" 5833782813310646] by simp
  have d5: "double (633 / 1000000) = Fin (5838394499329073 / 9223372036854775808)"
    using double_normal [of "-11" "633 / 1000000" 5838394499329073] by simp
  have k: "round_half_even (45576428228989421875 / 72057594037927936) = 633"
    using round_half_even_eq [of 633 "45576428228989421875 / 72057594037927936"] by simp
  have m: "model_category ''claude-3-5-haiku-20241022'' = Some ''claude-haiku''"
    by (simp add: model_category_def lower_def lower_char_def)
  show ?thesis
    by (simp add: calculate_cost_def m pricing_def int_true_divide_def py_round_def k d0 d1 d2 d3 d4 d5)
qed

lemma cost_sonnet_1000_1000:
  "calculate_cost 1000 1000 ''claude-sonnet-4-20250514'' = Inr (Fin (5188146770730811 / 288230376151711744))"
proof -
  have d0: "double (1 / 1000) = Fin (1152921504606847 / 1152921504606846976)"
    using double_normal [of "-10" "1 / 1000" 4611686018427388] by simp
  have d2: "double (3458764513820541 / 1152921504606846976) = Fin (3458764513820541 / 1152921504606846976)"
    using double_normal [of "-9" "3458764513820541 / 1152921504606846976" 6917529027641082] by simp
  have d3: "double (17293822569102705 / 1152921504606846976) = Fin (1080863910568919 / 72057594037927936)"
    using double_normal [of "-7" "17293822569102705 / 1152921504606846976" 8646911284551352] by simp
  have d4: "double (20752587082923245 / 1152921504606846976) = Fin (5188146770730811 / 288230376151711744)"
    using double_normal [of "-6" "20752587082923245 / 1152921504606846976" 5188146770730811] by simp
  have d5: "double (9 / 500) = Fin (5188146770730811 / 288230376151711744)"
    using double_normal [of "-6" "9 / 500" 5188146770730811] by simp
  have k: "round_half_even (81064793292668921875 / 4503599627370496) = 18000"
    using round_half_even_eq [of 18000 "81064793292668921875 / 4503599627370496"] by simp
  have m: "model_category ''claude-sonnet-4-20250514'' = Some ''claude-sonnet''"
    by (simp add: model_category_def lower_def lower_char_def)
  show ?thesis
    by (simp add: calculate_cost_def m pricing_def int_true_divide_def py_round_def k d0 d2 d3 d4 d5)
qed

lemma cost_gpt4_1000_500:
  "calculate_cost 1000 500 ''GPT-4-turbo-preview'' = Inr (Fin (3602879701896397 / 144115188075855872))"
proof -
  have d0: "double (1 / 1000) = Fin (1152921504606847 / 1152921504606846976)"
    using double_normal [of "-10" "1 / 1000" 4611686018427388] by simp
  have d1: "double (1 / 2000) = Fin (1152921504606847 / 2305843009213693952)"
    using double_normal [of "-11" "1 / 2000" 4611686018427388] by simp
  have d2: "double (5764607523034235 / 576460752303423488) = Fin (5764607523034235 / 576460752303423488)"
    using double_normal [of "-7" "5764607523034235 / 576460752303423488" 5764607523034235] by simp
  have d3: "double (17293822569102705 / 1152921504606846976) = Fin (1080863910568919 / 72057594037927936)"
    using double_normal [of "-7" "17293822569102705 / 1152921504606846976" 8646911284551352] by simp
  have d4: "double (14411518807585587 / 576460752303423488) = Fin (3602879701896397 / 144115188075855872)"
    using double_normal [of "-6" "14411518807585587 / 576460752303423488" 7205759403792794] by simp
  have d5: "double (1 / 40) = Fin (3602879701896397 / 144115188075855872)"
    using double_normal [of "-6" "1 / 40" 7205759403792794] by simp
  have k: "round_half_even (56294995342131203125 / 2251799813685248) = 25000"
    using round_half_even_eq [of 25000 "56294995342131203125 / 2251799813685248"] by simp
  have m: "model_category ''GPT-4-turbo-preview'' = Some ''gpt-4''"
    by (simp add: model_category_def lower_def lower_char_def)
  show ?thesis
    by (simp add: calculate_cost_def m pricing_def int_true_divide_def py_round_def k d0 d1 d2 d3 d4 d5)
qed

lemma cost_unknown_model: "calculate_cost 1000 1000 ''test'' = Inr (Fin 0)"
  by (simp add: calculate_cost_def model_category_def lower_def lower_char_def)

subsection \<open>The cost formula\<close>

lemma double_zero: "double 0 = Fin 0"
  by (simp add: double_def)

lemma py_round_zero: "py_round (Fin 0) 6 = Inr (Fin 0)"
  by (simp add: py_round_def round_half_even_def double_zero)

lemma spec_cost_zero: "spec_cost 0 0 ip op = Inr (Fin 0)"
  by (simp add: spec_cost_def int_true_divide_def double_zero py_round_zero)

lemma calculate_cost_spec:
  "calculate_cost p c m =
     (if contains ''sonnet'' (lower m) then spec_cost p c 3 15
      else if contains ''haiku'' (lower m) then spec_cost p c (1 / 4) (5 / 4)
      else if contains ''gpt-4'' (lower m) \<or> contains ''gpt4'' (lower m) then spec_cost p c 10 30
      else Inr (Fin 0))"
  by (simp add: calculate_cost_def model_category_def pricing_def spec_cost_def)

lemma py_round_decimal:
  assumes "py_round (Fin s) 6 = Inr (Fin y)"
  shows "\<exists>k. \<bar>of_int k - s * 10 ^ 6\<bar> \<le> 1 / 2 \<and> (\<bar>of_int k - s * 10 ^ 6\<bar> = 1 / 2 \<longrightarrow> even k)
             \<and> double (of_int k / 10 ^ 6) = Fin y"
proof -
  let ?k = "round_half_even (s * 10 ^ 6)"
  from assms have "double (of_int ?k / 10 ^ 6) = Fin y"
    by (simp add: py_round_def split: pyfloat.splits)
  with round_half_even_near [of "s * 10 ^ 6"] round_half_even_even [of "s * 10 ^ 6"]
  show ?thesis by blast
qed

lemma spec_cost_finite:
  assumes "spec_cost p c ip op = Inr (Fin y)"
  shows "\<exists>a b s k. int_true_divide p 1000000 = Inr (Fin a)
           \<and> int_true_divide c 1000000 = Inr (Fin b)
           \<and> fadd (fmul (Fin a) (Fin ip)) (fmul (Fin b) (Fin op)) = Fin s
           \<and> \<bar>of_int k - s * 10 ^ 6\<bar> \<le> 1 / 2
           \<and> (\<bar>of_int k - s * 10 ^ 6\<bar> = 1 / 2 \<longrightarrow> even k)
           \<and> double (of_int k / 10 ^ 6) = Fin y"
proof -
  from assms obtain a' where a': "int_true_divide p 1000000 = Inr a'"
    by (auto simp: spec_cost_def split: sum.splits)
  then obtain a where a: "a' = Fin a"
    by (cases "double (of_int p / of_int 1000000)") (auto simp: int_true_divide_def)
  from assms a' obtain b' where b': "int_true_divide c 1000000 = Inr b'"
    by (auto simp: spec_cost_def split: sum.splits)
  then obtain b where b: "b' = Fin b"
    by (cases "double (of_int c / of_int 1000000)") (auto simp: int_true_divide_def)
  from assms a' a b' b
  have r: "py_round (fadd (fmul (Fin a) (Fin ip)) (fmul (Fin b) (Fin op))) 6 = Inr (Fin y)"
    by (simp add: spec_cost_def)
  then obtain s where s: "fadd (fmul (Fin a) (Fin ip)) (fmul (Fin b) (Fin op)) = Fin s"
    by (cases "fadd (fmul (Fin a) (Fin ip)) (fmul (Fin b) (Fin op))")
       (simp_all add: py_round_def)
  from r s py_round_decimal [of s y] a' a b' b show ?thesis by auto
qed

subsection \<open>Accuracy of the cost\<close>

lemma double_accurate:
  assumes lo: "2 powi (- 1022) \<le> a" and hi: "a < 2 powi 1023"
  shows "\<exists>y. double a = Fin y \<and> \<bar>y - a\<bar> \<le> a / 2 ^ 53"
proof -
  have "(0::rat) < 2 powi (- 1022)" by (simp add: zero_less_power_int)
  with lo have pos: "0 < a" by linarith
  let ?e = "exponent a"
  from exponent_bounds [OF pos] have b1: "2 powi ?e \<le> a" and b2: "a < 2 powi (?e + 1)" by auto
  have e_lo: "- 1022 \<le> ?e"
  proof (rule ccontr)
    assume "\<not> - 1022 \<le> ?e"
    then have "?e + 1 \<le> - 1022" by simp
    then have "(2::rat) powi (?e + 1) \<le> 2 powi (- 1022)" by (intro power_int_increasing) auto
    with b2 lo show False by linarith
  qed
  have e_hi: "?e \<le> 1022"
  proof (rule ccontr)
    assume "\<not> ?e \<le> 1022"
    then have "1023 \<le> ?e" by simp
    then have "(2::rat) powi 1023 \<le> 2 powi ?e" by (intro power_int_increasing) auto
    with b1 hi show False by linarith
  qed
  let ?ulp = "(2::rat) powi (?e - 52)"
  let ?n = "round_half_even (a / ?ulp)"
  let ?r = "of_int ?n * ?ulp"
  have ulp_pos: "0 < ?ulp" by (simp add: zero_less_power_int)
  have ulp: "?ulp = 2 powi ?e / 2 ^ 52"
    by (simp add: power_int_diff)
  have near: "\<bar>of_int ?n - a / ?ulp\<bar> \<le> 1 / 2" by (rule round_half_even_near)
  have "\<bar>?r - a\<bar> = \<bar>of_int ?n - a / ?ulp\<bar> * ?ulp"
  proof -
    have "?r - a = (of_int ?n - a / ?ulp) * ?ulp" using ulp_pos by (simp add: field_simps)
    then show ?thesis using ulp_pos by (simp add: abs_mult)
  qed
  also have "\<dots> \<le> 1 / 2 * ?ulp" using near ulp_pos by (intro mult_right_mono) auto
  finally have err: "\<bar>?r - a\<bar> \<le> ?ulp / 2" by simp
  have half: "?ulp / 2 = 2 powi ?e / 2 ^ 53" unfolding ulp by simp
  have "2 powi ?e / 2 ^ 53 \<le> a / (2 ^ 53 :: rat)" using b1 by (simp add: divide_right_mono)
  with err half have acc: "\<bar>?r - a\<bar> \<le> a / 2 ^ 53" by linarith
  have "a / (2 ^ 53 :: rat) \<le> a" using pos by (simp add: field_simps)
  with acc have "?r \<le> a + a" by linarith
  also have "\<dots> < 2 powi 1023 + 2 powi 1023" using hi by linarith
  also have "\<dots> = (2::rat) powi 1024" by simp
  finally have no: "\<not> 2 powi 1024 \<le> ?r" by simp
  have m: "max ?e (- 1022) = ?e" using e_lo by simp
  have ab: "\<bar>a\<bar> = a" using pos by simp
  have nz: "a \<noteq> 0" using pos by simp
  have "double a = Fin ?r"
    unfolding double_def Let_def ab m using nz no pos by (simp only: if_False if_True)
  with acc show ?thesis by blast
qed

lemma double_step:
  assumes "a = 0 \<or> 1 / 10 ^ 9 \<le> a" "a \<le> 10 ^ 9"
  shows "\<exists>y. double a = Fin y \<and> \<bar>y - a\<bar> \<le> a / 2 ^ 53"
proof (cases "a = 0")
  case True
  then show ?thesis by (simp add: double_def)
next
  case False
  have "(2::rat) powi (- 1022) \<le> 1 / 10 ^ 9" by simp
  with False assms(1) have lo: "2 powi (- 1022) \<le> a" by linarith
  have "(10 ^ 9 :: rat) < 2 powi 1023" by simp
  with assms(2) have hi: "a < 2 powi 1023" by linarith
  from lo hi show ?thesis by (rule double_accurate)
qed

lemma int_true_divide_accurate:
  assumes "0 \<le> p" "p \<le> 10 ^ 12"
  shows "\<exists>a. int_true_divide p 1000000 = Inr (Fin a)
           \<and> \<bar>a - of_int p / 10 ^ 6\<bar> \<le> of_int p / 10 ^ 6 / 2 ^ 53"
proof -
  let ?x = "rat_of_int p / 10 ^ 6"
  have "?x = 0 \<or> 1 / 10 ^ 9 \<le> ?x"
  proof (cases "p = 0")
    case True
    then show ?thesis by simp
  next
    case False
    with assms(1) have "1 \<le> p" by simp
    then have "(1::rat) \<le> of_int p" by simp
    then show ?thesis by simp
  qed
  moreover have "?x \<le> 10 ^ 9"
  proof -
    from assms(2) have "rat_of_int p \<le> of_int (10 ^ 12)" by (simp only: of_int_le_iff)
    then show ?thesis by simp
  qed
  ultimately obtain y where y: "double ?x = Fin y" "\<bar>y - ?x\<bar> \<le> ?x / 2 ^ 53"
    using double_step [of ?x] by blast
  then show ?thesis by (simp add: int_true_divide_def)
qed

text \<open>Relative error bounds as pairs of linear inequalities.\<close>

lemma two_power_53: "(2::rat) ^ 53 = 9007199254740992"
  by simp

lemma rel_err:
  fixes x y :: rat
  shows "\<bar>y - x\<bar> \<le> x / 2 ^ 53
         \<longleftrightarrow> x - x / 9007199254740992 \<le> y \<and> y \<le> x + x / 9007199254740992"
  unfolding two_power_53 abs_le_iff by arith

lemma rel_err3:
  fixes x y :: rat
  shows "\<bar>y - x\<bar> \<le> x * (3 / 2 ^ 53)
         \<longleftrightarrow> x - x * (3 / 9007199254740992) \<le> y \<and> y \<le> x + x * (3 / 9007199254740992)"
  unfolding two_power_53 abs_le_iff by arith

text \<open>Multiplying a quotient by a price, and adding two products.\<close>

lemma fmul_price_accurate:
  assumes a: "\<bar>a - x\<bar> \<le> x / 2 ^ 53" and x: "x = 0 \<or> 1 / 10 ^ 6 \<le> x" "x \<le> 10 ^ 6"
    and price: "1 / 4 \<le> price" "price \<le> 30"
  shows "\<exists>y. fmul (Fin a) (Fin price) = Fin y
           \<and> \<bar>y - x * price\<bar> \<le> x * price * (3 / 2 ^ 53)
           \<and> (x = 0 \<longrightarrow> y = 0)"
proof -
  let ?X = "x * price" and ?A = "a * price"
  have x0: "0 \<le> x" using x(1) by auto
  have X0: "0 \<le> ?X" using x0 price by simp
  from a have a': "x - x / 9007199254740992 \<le> a" "a \<le> x + x / 9007199254740992"
    by (simp_all only: rel_err)
  have "(x - x / 9007199254740992) * price \<le> a * price"
    using a'(1) price by (intro mult_right_mono) auto
  moreover have "a * price \<le> (x + x / 9007199254740992) * price"
    using a'(2) price by (intro mult_right_mono) auto
  ultimately have AX: "?X - ?X / 9007199254740992 \<le> ?A" "?A \<le> ?X + ?X / 9007199254740992"
    by (simp_all add: algebra_simps)
  have range1: "?A = 0 \<or> 1 / 10 ^ 9 \<le> ?A"
  proof (cases "x = 0")
    case True
    with a' have "a = 0" by simp
    then show ?thesis by simp
  next
    case False
    with x(1) have "1 / 1000000 \<le> x" by simp
    with a' have "1 / 10000000 \<le> a" by linarith
    then have "1 / 10000000 * (1 / 4) \<le> a * price" using price by (intro mult_mono) auto
    then show ?thesis by simp
  qed
  have range2: "?A \<le> 10 ^ 9"
  proof -
    from x(2) have "x \<le> 1000000" by simp
    with a' x0 have "a \<le> 2000000" "0 \<le> a" by linarith+
    then have "a * price \<le> 2000000 * 30" using price by (intro mult_mono) auto
    then show ?thesis by simp
  qed
  from double_step [OF range1 range2]
  obtain y where y: "double ?A = Fin y" "\<bar>y - ?A\<bar> \<le> ?A / 2 ^ 53" by blast
  from y(2) have y': "?A - ?A / 9007199254740992 \<le> y" "y \<le> ?A + ?A / 9007199254740992"
    by (simp_all only: rel_err)
  from y' AX X0
  have "?X - ?X * (3 / 9007199254740992) \<le> y \<and> y \<le> ?X + ?X * (3 / 9007199254740992)"
    by linarith
  then have e: "\<bar>y - ?X\<bar> \<le> ?X * (3 / 2 ^ 53)" by (simp only: rel_err3)
  have "x = 0 \<longrightarrow> y = 0"
  proof
    assume "x = 0"
    with a' have "a = 0" by simp
    with y(1) show "y = 0" by (simp add: double_def)
  qed
  with y(1) e show ?thesis by simp
qed

lemma price_product_range:
  fixes x price :: rat
  assumes "x = 0 \<or> 1 / 10 ^ 6 \<le> x" "x \<le> 10 ^ 6" "1 / 4 \<le> price" "price \<le> 30"
  shows "0 \<le> x * price" "x * price \<le> 30000000" "x \<noteq> 0 \<longrightarrow> 1 / 4000000 \<le> x * price"
proof -
  have x0: "0 \<le> x" using assms(1) by auto
  then show "0 \<le> x * price" using assms(3) by simp
  have "x * price \<le> 10 ^ 6 * 30" using assms x0 by (intro mult_mono) auto
  then show "x * price \<le> 30000000" by simp
  show "x \<noteq> 0 \<longrightarrow> 1 / 4000000 \<le> x * price"
  proof
    assume "x \<noteq> 0"
    with assms(1) have "1 / 10 ^ 6 \<le> x" by simp
    then have "1 / 10 ^ 6 * (1 / 4) \<le> x * price" using assms(3) by (intro mult_mono) auto
    then show "1 / 4000000 \<le> x * price" by simp
  qed
qed

lemma tokens_range:
  assumes "0 \<le> p" "p \<le> 10 ^ 12"
  shows "rat_of_int p / 10 ^ 6 = 0 \<or> 1 / 10 ^ 6 \<le> rat_of_int p / 10 ^ 6"
    "rat_of_int p / 10 ^ 6 \<le> 10 ^ 6"
proof -
  show "rat_of_int p / 10 ^ 6 = 0 \<or> 1 / 10 ^ 6 \<le> rat_of_int p / 10 ^ 6"
  proof (cases "p = 0")
    case True
    then show ?thesis by simp
  next
    case False
    with assms(1) have "1 \<le> p" by simp
    then have "(1::rat) \<le> of_int p" by simp
    then show ?thesis by (simp add: divide_right_mono)
  qed
  from assms(2) have "rat_of_int p \<le> of_int (10 ^ 12)" by (simp only: of_int_le_iff)
  then show "rat_of_int p / 10 ^ 6 \<le> 10 ^ 6" by simp
qed

lemma py_round_accurate:
  assumes s: "0 \<le> s" "s \<le> 70000000"
  shows "\<exists>y. py_round (Fin s) 6 = Inr (Fin y) \<and> 0 \<le> y
           \<and> s - 51 / 100000000 \<le> y \<and> y \<le> s + 51 / 100000000"
proof -
  define k where "k = round_half_even (s * 1000000)"
  define v where "v = rat_of_int k / 1000000"
  have "\<bar>of_int k - s * 1000000\<bar> \<le> 1 / 2" unfolding k_def by (rule round_half_even_near)
  then have k1: "s * 1000000 - 1 / 2 \<le> of_int k" and k2: "rat_of_int k \<le> s * 1000000 + 1 / 2"
    unfolding abs_le_iff by linarith+
  from k1 s(1) have "- 1 < rat_of_int k" by linarith
  then have "rat_of_int (- 1) < rat_of_int k" by simp
  then have "- 1 < k" by (simp only: of_int_less_iff)
  then have k0: "0 \<le> k" by simp
  have v1: "s - 1 / 2000000 \<le> v" using k1 unfolding v_def by linarith
  have v2: "v \<le> s + 1 / 2000000" using k2 unfolding v_def by linarith
  have range1: "v = 0 \<or> 1 / 10 ^ 9 \<le> v"
  proof (cases "k = 0")
    case True
    then show ?thesis by (simp add: v_def)
  next
    case False
    with k0 have "1 \<le> k" by simp
    then have "rat_of_int 1 \<le> of_int k" by (simp only: of_int_le_iff)
    then have "1 / 1000000 \<le> v" unfolding v_def by simp
    then show ?thesis by simp
  qed
  have "v \<le> 1000000000" using v2 s(2) by linarith
  then have range2: "v \<le> 10 ^ 9" by simp
  from double_step [OF range1 range2]
  obtain y where y: "double v = Fin y" "\<bar>y - v\<bar> \<le> v / 2 ^ 53" by blast
  from y(2) have y': "v - v / 9007199254740992 \<le> y" "y \<le> v + v / 9007199254740992"
    by (simp_all only: rel_err)
  have v0: "0 \<le> v" using k0 by (simp add: v_def)
  have v3: "v \<le> 70000001" using v2 s(2) by linarith
  from y' v0 have y0: "0 \<le> y" by linarith
  from y' v1 v2 v0 v3
  have b: "s - 51 / 100000000 \<le> y \<and> y \<le> s + 51 / 100000000" by linarith
  have "py_round (Fin s) 6 = Inr (Fin y)"
    using y(1) by (simp add: py_round_def k_def v_def)
  with b y0 show ?thesis by blast
qed

lemma spec_cost_accurate:
  assumes p: "0 \<le> p" "p \<le> 10 ^ 12" and c: "0 \<le> c" "c \<le> 10 ^ 12"
    and ip: "1 / 4 \<le> ip" "ip \<le> 30" and op: "1 / 4 \<le> op" "op \<le> 30"
  shows "\<exists>y. spec_cost p c ip op = Inr (Fin y) \<and> 0 \<le> y
           \<and> \<bar>y - (of_int p * ip + of_int c * op) / 10 ^ 6\<bar> \<le> 6 / 10 ^ 7"
proof -
  define x where "x = rat_of_int p / 10 ^ 6"
  define z where "z = rat_of_int c / 10 ^ 6"
  define X where "X = x * ip"
  define Z where "Z = z * op"
  note xr = tokens_range [OF p, folded x_def] and zr = tokens_range [OF c, folded z_def]
  from int_true_divide_accurate [OF p, folded x_def] obtain a where
    a: "int_true_divide p 1000000 = Inr (Fin a)" "\<bar>a - x\<bar> \<le> x / 2 ^ 53" by blast
  from int_true_divide_accurate [OF c, folded z_def] obtain b where
    b: "int_true_divide c 1000000 = Inr (Fin b)" "\<bar>b - z\<bar> \<le> z / 2 ^ 53" by blast
  from fmul_price_accurate [OF a(2) xr ip, folded X_def] obtain m1 where
    m1: "fmul (Fin a) (Fin ip) = Fin m1" "\<bar>m1 - X\<bar> \<le> X * (3 / 2 ^ 53)" "x = 0 \<longrightarrow> m1 = 0"
    by blast
  from fmul_price_accurate [OF b(2) zr op, folded Z_def] obtain m2 where
    m2: "fmul (Fin b) (Fin op) = Fin m2" "\<bar>m2 - Z\<bar> \<le> Z * (3 / 2 ^ 53)" "z = 0 \<longrightarrow> m2 = 0"
    by blast
  note XR = price_product_range [OF xr ip, folded X_def]
    and ZR = price_product_range [OF zr op, folded Z_def]
  from m1(2) have m1': "X - X * (3 / 9007199254740992) \<le> m1"
    "m1 \<le> X + X * (3 / 9007199254740992)" by (simp_all only: rel_err3)
  from m2(2) have m2': "Z - Z * (3 / 9007199254740992) \<le> m2"
    "m2 \<le> Z + Z * (3 / 9007199254740992)" by (simp_all only: rel_err3)
  define S where "S = m1 + m2"
  define E where "E = X + Z"
  have m10: "0 \<le> m1" using m1' XR(1) by linarith
  have m20: "0 \<le> m2" using m2' ZR(1) by linarith
  have range1: "S = 0 \<or> 1 / 10 ^ 9 \<le> S"
  proof (cases "x = 0 \<and> z = 0")
    case True
    with m1(3) m2(3) show ?thesis by (simp add: S_def)
  next
    case False
    then consider "x \<noteq> 0" | "z \<noteq> 0" by blast
    then have "1 / 1000000000 \<le> S"
    proof cases
      case 1
      with XR(3) have "1 / 4000000 \<le> X" by simp
      with m1' m20 S_def show ?thesis by linarith
    next
      case 2
      with ZR(3) have "1 / 4000000 \<le> Z" by simp
      with m2' m10 S_def show ?thesis by linarith
    qed
    then show ?thesis by simp
  qed
  have "S \<le> 1000000000" using m1' m2' XR(1,2) ZR(1,2) S_def by linarith
  then have range2: "S \<le> 10 ^ 9" by simp
  from double_step [OF range1 range2]
  obtain s where s: "double S = Fin s" "\<bar>s - S\<bar> \<le> S / 2 ^ 53" by blast
  from s(2) have s': "S - S / 9007199254740992 \<le> s" "s \<le> S + S / 9007199254740992"
    by (simp_all only: rel_err)
  have E0: "0 \<le> E" "E \<le> 60000000" using XR(1,2) ZR(1,2) E_def by linarith+
  have s0: "0 \<le> s" using s' m10 m20 S_def by linarith
  have sE: "E - 3 / 100000000 \<le> s" "s \<le> E + 3 / 100000000"
    using s' m1' m2' XR(1,2) ZR(1,2) S_def E_def by linarith+
  have s70: "s \<le> 70000000" using sE E0 by linarith
  from py_round_accurate [OF s0 s70] obtain y where
    y: "py_round (Fin s) 6 = Inr (Fin y)" "0 \<le> y"
    "s - 51 / 100000000 \<le> y" "y \<le> s + 51 / 100000000" by blast
  have "E - 6 / 10000000 \<le> y \<and> y \<le> E + 6 / 10000000" using y(3,4) sE by linarith
  then have "\<bar>y - E\<bar> \<le> 6 / 10000000" unfolding abs_le_iff by linarith
  then have e: "\<bar>y - E\<bar> \<le> 6 / 10 ^ 7" by simp
  have E: "E = (of_int p * ip + of_int c * op) / 10 ^ 6"
    by (simp add: E_def X_def Z_def x_def z_def field_simps)
  have "spec_cost p c ip op = Inr (Fin y)"
    using a(1) b(1) m1(1) m2(1) s(1) y(1) by (simp add: spec_cost_def S_def)
  with e y(2) show ?thesis unfolding E by blast
qed

lemma calculate_cost_accurate:
  assumes "0 \<le> p" "p \<le> 10 ^ 12" "0 \<le> c" "c \<le> 10 ^ 12"
  shows "\<exists>y. calculate_cost p c m = Inr (Fin y) \<and> 0 \<le> y
           \<and> \<bar>y - exact_cost p c m\<bar> \<le> 6 / 10 ^ 7"
proof -
  consider (s) "contains ''sonnet'' (lower m)"
    | (h) "\<not> contains ''sonnet'' (lower m)" "contains ''haiku'' (lower m)"
    | (g) "\<not> contains ''sonnet'' (lower m)" "\<not> contains ''haiku'' (lower m)"
          "contains ''gpt-4'' (lower m) \<or> contains ''gpt4'' (lower m)"
    | (n) "\<not> contains ''sonnet'' (lower m)" "\<not> contains ''haiku'' (lower m)"
          "\<not> (contains ''gpt-4'' (lower m) \<or> contains ''gpt4'' (lower m))"
    by blast
  then show ?thesis
  proof cases
    case s
    from spec_cost_accurate [OF assms, of 3 15] s show ?thesis
      by (simp add: calculate_cost_spec exact_cost_def)
  next
    case h
    from spec_cost_accurate [OF assms, of "1 / 4" "5 / 4"] h show ?thesis
      by (simp add: calculate_cost_spec exact_cost_def)
  next
    case g
    from spec_cost_accurate [OF assms, of 10 30] g show ?thesis
      by (simp add: calculate_cost_spec exact_cost_def)
  next
    case n
    then show ?thesis by (simp add: calculate_cost_spec exact_cost_def)
  qed
qed

text \<open>
  C5: for every model identifier and token counts, the cost is
  \<open>round(prompt/1e6 * input price + completion/1e6 * output price, 6)\<close> in float
  arithmetic, with the prices of the first family the lower-cased identifier
  matches (sonnet 3 and 15, haiku 0.25 and 1.25, gpt-4 or gpt4 10 and 30); an
  identifier matching no family costs 0.0; zero prompt and completion tokens cost
  exactly 0.0 for every identifier. The rounding is to 6 decimals: a finite cost
  is the double nearest to \<open>k / 10^6\<close> for an integer \<open>k\<close> within one half of
  \<open>10^6\<close> times the float sum, even when exactly one half away. For non-negative
  token counts up to \<open>10^12\<close> the cost is returned, finite, not negative and within
  \<open>0.6 * 10^-6\<close> of the formula in exact arithmetic. And 1 and 1 tokens of the
  haiku model cost the double \<open>1e-06\<close> (the float sum is just below \<open>1.5e-06\<close>),
  1000 and 306 tokens cost \<open>0.000633\<close> (the float sum is just above
  \<open>0.0006325\<close>), 1000 and 1000 tokens of the sonnet model cost \<open>0.018\<close>.
\<close>

theorem calculate_cost_rounded:
  "calculate_cost p c m =
     (if contains ''sonnet'' (lower m) then spec_cost p c 3 15
      else if contains ''haiku'' (lower m) then spec_cost p c (1 / 4) (5 / 4)
      else if contains ''gpt-4'' (lower m) \<or> contains ''gpt4'' (lower m) then spec_cost p c 10 30
      else Inr (Fin 0))
   \<and> calculate_cost 0 0 m = Inr (Fin 0)
   \<and> (\<forall>ip op y. spec_cost p c ip op = Inr (Fin y) \<longrightarrow>
         (\<exists>a b s k. int_true_divide p 1000000 = Inr (Fin a)
            \<and> int_true_divide c 1000000 = Inr (Fin b)
            \<and> fadd (fmul (Fin a) (Fin ip)) (fmul (Fin b) (Fin op)) = Fin s
            \<and> \<bar>of_int k - s * 10 ^ 6\<bar> \<le> 1 / 2
            \<and> (\<bar>of_int k - s * 10 ^ 6\<bar> = 1 / 2 \<longrightarrow> even k)
            \<and> double (of_int k / 10 ^ 6) = Fin y))
   \<and> (0 \<le> p \<and> p \<le> 10 ^ 12 \<and> 0 \<le> c \<and> c \<le> 10 ^ 12 \<longrightarrow>
         (\<exists>y. calculate_cost p c m = Inr (Fin y) \<and> 0 \<le> y
            \<and> \<bar>y - exact_cost p c m\<bar> \<le> 6 / 10 ^ 7))
   \<and> calculate_cost 1 1 ''claude-3-5-haiku-20241022'' = Inr (Fin (4722366482869645 / 2 ^ 72))
   \<and> calculate_cost 1000 306 ''claude-3-5-haiku-20241022''
       = Inr (Fin (5838394499329073 / 2 ^ 63))
   \<and> calculate_cost 1000 1000 ''claude-sonnet-4-20250514''
       = Inr (Fin (5188146770730811 / 2 ^ 58))"
proof -
  have z: "calculate_cost 0 0 m = Inr (Fin 0)"
    by (simp add: calculate_cost_spec spec_cost_zero)
  have r: "\<forall>ip op y. spec_cost p c ip op = Inr (Fin y) \<longrightarrow>
         (\<exists>a b s k. int_true_divide p 1000000 = Inr (Fin a)
            \<and> int_true_divide c 1000000 = Inr (Fin b)
            \<and> fadd (fmul (Fin a) (Fin ip)) (fmul (Fin b) (Fin op)) = Fin s
            \<and> \<bar>of_int k - s * 10 ^ 6\<bar> \<le> 1 / 2
            \<and> (\<bar>of_int k - s * 10 ^ 6\<bar> = 1 / 2 \<longrightarrow> even k)
            \<and> double (of_int k / 10 ^ 6) = Fin y)"
    using spec_cost_finite by blast
  have acc: "0 \<le> p \<and> p \<le> 10 ^ 12 \<and> 0 \<le> c \<and> c \<le> 10 ^ 12 \<longrightarrow>
         (\<exists>y. calculate_cost p c m = Inr (Fin y) \<and> 0 \<le> y
            \<and> \<bar>y - exact_cost p c m\<bar> \<le> 6 / 10 ^ 7)"
    using calculate_cost_accurate [of p c m] by blast
  have i1: "calculate_cost 1 1 ''claude-3-5-haiku-20241022''
              = Inr (Fin (4722366482869645 / 2 ^ 72))"
    by (simp add: cost_haiku_1_1)
  have i2: "calculate_cost 1000 306 ''claude-3-5-haiku-20241022''
              = Inr (Fin (5838394499329073 / 2 ^ 63))"
    by (simp add: cost_haiku_1000_306)
  have i3: "calculate_cost 1000 1000 ''claude-sonnet-4-20250514''
              = Inr (Fin (5188146770730811 / 2 ^ 58))"
    by (simp add: cost_sonnet_1000_1000)
  from calculate_cost_spec [of p c m] z r acc i1 i2 i3 show ?thesis by blast
qed

theorem calculate_cost_rounded_witness:
  "calculate_cost 1000 306 ''claude-3-5-haiku-20241022'' = spec_cost 1000 306 (1 / 4) (5 / 4)
   \<and> spec_cost 1000 306 (1 / 4) (5 / 4) = Inr (Fin (5838394499329073 / 2 ^ 63))
   \<and> (\<exists>s k. fadd (fmul (Fin (1152921504606847 / 2 ^ 60)) (Fin (1 / 4)))
                  (fmul (Fin (5644703686555123 / 2 ^ 64)) (Fin (5 / 4))) = Fin s
         \<and> \<bar>of_int k - s * 10 ^ 6\<bar> \<le> 1 / 2
         \<and> double (of_int k / 10 ^ 6) = Fin (5838394499329073 / 2 ^ 63))
   \<and> (0::int) \<le> 1000 \<and> (1000::int) \<le> 10 ^ 12 \<and> (0::int) \<le> 306 \<and> (306::int) \<le> 10 ^ 12
   \<and> exact_cost 1000 306 ''claude-3-5-haiku-20241022'' = 6325 / 10 ^ 7
   \<and> \<bar>5838394499329073 / 2 ^ 63 - exact_cost 1000 306 ''claude-3-5-haiku-20241022''\<bar>
       \<le> 6 / 10 ^ 7"
proof -
  have h: "contains ''haiku'' (lower ''claude-3-5-haiku-20241022'')"
    "\<not> contains ''sonnet'' (lower ''claude-3-5-haiku-20241022'')"
    by (simp_all add: lower_def lower_char_def)
  note t = calculate_cost_rounded [of 1000 306 "''claude-3-5-haiku-20241022''"]
  from t h have 1: "calculate_cost 1000 306 ''claude-3-5-haiku-20241022''
                    = spec_cost 1000 306 (1 / 4) (5 / 4)" by simp
  from t have v: "calculate_cost 1000 306 ''claude-3-5-haiku-20241022''
                  = Inr (Fin (5838394499329073 / 2 ^ 63))" by blast
  with 1 have 2: "spec_cost 1000 306 (1 / 4) (5 / 4) = Inr (Fin (5838394499329073 / 2 ^ 63))"
    by simp
  from t 2 obtain a b s k where r:
    "int_true_divide 1000 1000000 = Inr (Fin a)"
    "int_true_divide 306 1000000 = Inr (Fin b)"
    "fadd (fmul (Fin a) (Fin (1 / 4))) (fmul (Fin b) (Fin (5 / 4))) = Fin s"
    "\<bar>of_int k - s * 10 ^ 6\<bar> \<le> 1 / 2"
    "double (of_int k / 10 ^ 6) = Fin (5838394499329073 / 2 ^ 63)"
    by blast
  have "int_true_divide 1000 1000000 = Inr (Fin (1152921504606847 / 2 ^ 60))"
    using double_normal [of "-10" "1 / 1000" 4611686018427388]
    by (simp add: int_true_divide_def)
  with r(1) have a: "a = 1152921504606847 / 2 ^ 60" by simp
  have "int_true_divide 306 1000000 = Inr (Fin (5644703686555123 / 2 ^ 64))"
    using double_normal [of "-12" "153 / 500000" 5644703686555123]
    by (simp add: int_true_divide_def)
  with r(2) have b: "b = 5644703686555123 / 2 ^ 64" by simp
  from r(3,4,5) have 3: "\<exists>s k. fadd (fmul (Fin (1152921504606847 / 2 ^ 60)) (Fin (1 / 4)))
                  (fmul (Fin (5644703686555123 / 2 ^ 64)) (Fin (5 / 4))) = Fin s
         \<and> \<bar>of_int k - s * 10 ^ 6\<bar> \<le> 1 / 2
         \<and> double (of_int k / 10 ^ 6) = Fin (5838394499329073 / 2 ^ 63)"
    unfolding a b by blast
  have range: "(0::int) \<le> 1000 \<and> (1000::int) \<le> 10 ^ 12 \<and> (0::int) \<le> 306
               \<and> (306::int) \<le> 10 ^ 12" by simp
  with t obtain y where y: "calculate_cost 1000 306 ''claude-3-5-haiku-20241022'' = Inr (Fin y)"
    "\<bar>y - exact_cost 1000 306 ''claude-3-5-haiku-20241022''\<bar> \<le> 6 / 10 ^ 7" by blast
  from y(1) v have "y = 5838394499329073 / 2 ^ 63" by simp
  with y(2) have 4: "\<bar>5838394499329073 / 2 ^ 63
                      - exact_cost 1000 306 ''claude-3-5-haiku-20241022''\<bar> \<le> 6 / 10 ^ 7"
    by simp
  have 5: "exact_cost 1000 306 ''claude-3-5-haiku-20241022'' = 6325 / 10 ^ 7"
    using h by (simp add: exact_cost_def)
  from 1 2 3 range 4 5 show ?thesis by blast
qed

section \<open>Properties of the rate limiter\<close>

lemma spaced_Cons:
  "spaced mi (g # gs) = ((gs \<noteq> [] \<longrightarrow> mi \<le> g - hd gs) \<and> spaced mi gs)"
  by (cases gs) simp_all

lemma limiter_inv_init:
  "RateLimiter_init R t0 = Inr l0 \<Longrightarrow> limiter_inv (60 / real_of_int R) l0"
  by (auto simp: RateLimiter_init_def limiter_inv_def split: if_splits)

lemma limiter_invI:
  assumes "lim_min_interval s = mi"
    and "\<And>i. is_sleeping (lim_pc s i) \<Longrightarrow>
                lim_locked s \<and> lim_pc s i = Sleeping (lim_last_request_time s + mi)"
    and "\<And>i j. is_sleeping (lim_pc s i) \<Longrightarrow> is_sleeping (lim_pc s j) \<Longrightarrow> i = j"
    and "lim_locked s \<Longrightarrow> \<exists>i. is_sleeping (lim_pc s i)"
    and "lim_grants s \<noteq> [] \<Longrightarrow> lim_last_request_time s = hd (lim_grants s)"
    and "spaced mi (lim_grants s)"
  shows "limiter_inv mi s"
  using assms unfolding limiter_inv_def by blast

lemma step_inv:
  assumes inv: "limiter_inv mi s" and st: "step s e = Some s'"
  shows "limiter_inv mi s'"
proof -
  from inv have mi: "lim_min_interval s = mi" unfolding limiter_inv_def by blast
  from inv have sl: "\<And>i. is_sleeping (lim_pc s i) \<Longrightarrow>
                lim_locked s \<and> lim_pc s i = Sleeping (lim_last_request_time s + mi)"
    and uniq: "\<And>i j. is_sleeping (lim_pc s i) \<Longrightarrow> is_sleeping (lim_pc s j) \<Longrightarrow> i = j"
    and lk: "lim_locked s \<Longrightarrow> \<exists>i. is_sleeping (lim_pc s i)"
    and hdg: "lim_grants s \<noteq> [] \<Longrightarrow> lim_last_request_time s = hd (lim_grants s)"
    and sp: "spaced mi (lim_grants s)"
    unfolding limiter_inv_def by blast+
  show ?thesis
  proof (cases e)
    case (Tick d)
    with st have s': "s' = s\<lparr> lim_clock := lim_clock s + d \<rparr>" by (simp split: if_splits)
    show ?thesis
      by (rule limiter_invI) (use mi sl uniq lk hdg sp in \<open>simp_all add: s'\<close>)
  next
    case (Call i)
    with st have out: "lim_pc s i = Outside"
      and s': "s' = s\<lparr> lim_pc := (lim_pc s)(i := Queued) \<rparr>" by (simp_all split: if_splits)
    show ?thesis
    proof (rule limiter_invI)
      show "lim_min_interval s' = mi" using mi by (simp add: s')
    next
      fix k assume "is_sleeping (lim_pc s' k)"
      then have "k \<noteq> i" "is_sleeping (lim_pc s k)" by (auto simp: s' split: if_splits)
      with sl [of k] show "lim_locked s' \<and> lim_pc s' k = Sleeping (lim_last_request_time s' + mi)"
        by (simp add: s')
    next
      fix k j assume "is_sleeping (lim_pc s' k)" "is_sleeping (lim_pc s' j)"
      then have "is_sleeping (lim_pc s k)" "is_sleeping (lim_pc s j)"
        by (auto simp: s' split: if_splits)
      then show "k = j" by (rule uniq)
    next
      assume "lim_locked s'"
      then have "lim_locked s" by (simp add: s')
      from lk [OF this] obtain k where k: "is_sleeping (lim_pc s k)" by blast
      with out have "k \<noteq> i" by auto
      with k have "is_sleeping (lim_pc s' k)" by (simp add: s')
      then show "\<exists>k. is_sleeping (lim_pc s' k)" by blast
    next
      assume "lim_grants s' \<noteq> []"
      then show "lim_last_request_time s' = hd (lim_grants s')" using hdg by (simp add: s')
    next
      show "spaced mi (lim_grants s')" using sp by (simp add: s')
    qed
  next
    case (Enter i d)
    with st have q: "lim_pc s i = Queued" and nl: "\<not> lim_locked s" and d: "0 \<le> d"
      by (simp_all split: if_splits)
    from nl sl have nosleep: "\<And>k. \<not> is_sleeping (lim_pc s k)" by blast
    show ?thesis
    proof (cases "wait_time mi (lim_clock s) (lim_last_request_time s)")
      case None
      then have gap: "mi \<le> lim_clock s - lim_last_request_time s"
        by (simp add: wait_time_def Let_def split: if_splits)
      from st Enter q nl d None mi
      have s': "s' = s\<lparr> lim_clock := lim_clock s + d,
                      lim_last_request_time := lim_clock s + d,
                      lim_pc := (lim_pc s)(i := Outside),
                      lim_grants := (lim_clock s + d) # lim_grants s \<rparr>" by simp
      have ns': "\<And>k. \<not> is_sleeping (lim_pc s' k)" using nosleep by (simp add: s')
      show ?thesis
      proof (rule limiter_invI)
        show "spaced mi (lim_grants s')"
          using sp hdg gap d by (cases "lim_grants s = []") (simp_all add: s' spaced_Cons)
      qed (use mi ns' nl in \<open>simp_all add: s'\<close>)
    next
      case (Some w)
      then have dl: "lim_clock s + w = lim_last_request_time s + mi"
        by (simp add: wait_time_def Let_def split: if_splits)
      from st Enter q nl d Some mi
      have s': "s' = s\<lparr> lim_locked := True,
                      lim_pc := (lim_pc s)(i := Sleeping (lim_clock s + w)) \<rparr>" by simp
      have only: "\<And>k. is_sleeping (lim_pc s' k) \<Longrightarrow> k = i"
        using nosleep by (auto simp: s' split: if_splits)
      show ?thesis
      proof (rule limiter_invI)
        show "lim_min_interval s' = mi" using mi by (simp add: s')
      next
        fix k assume "is_sleeping (lim_pc s' k)"
        from only [OF this] show "lim_locked s' \<and> lim_pc s' k = Sleeping (lim_last_request_time s' + mi)"
          by (simp add: s' dl)
      next
        fix k j assume "is_sleeping (lim_pc s' k)" "is_sleeping (lim_pc s' j)"
        then show "k = j" using only by blast
      next
        have "is_sleeping (lim_pc s' i)" by (simp add: s')
        then show "\<exists>k. is_sleeping (lim_pc s' k)" by blast
      next
        assume "lim_grants s' \<noteq> []"
        then show "lim_last_request_time s' = hd (lim_grants s')" using hdg by (simp add: s')
      next
        show "spaced mi (lim_grants s')" using sp by (simp add: s')
      qed
    qed
  next
    case (Wake i)
    with st obtain deadline where pc: "lim_pc s i = Sleeping deadline"
      and due: "deadline \<le> lim_clock s"
      and s': "s' = s\<lparr> lim_last_request_time := lim_clock s, lim_locked := False,
                      lim_pc := (lim_pc s)(i := Outside),
                      lim_grants := lim_clock s # lim_grants s \<rparr>"
      by (auto split: task_pc.splits if_splits)
    from pc have sli: "is_sleeping (lim_pc s i)" by simp
    from sl [OF sli] pc have "deadline = lim_last_request_time s + mi" by simp
    with due have gap: "mi \<le> lim_clock s - lim_last_request_time s" by simp
    have ns': "\<And>k. \<not> is_sleeping (lim_pc s' k)"
      using uniq [OF sli] by (auto simp: s' split: if_splits)
    show ?thesis
    proof (rule limiter_invI)
      show "spaced mi (lim_grants s')"
        using sp hdg gap by (cases "lim_grants s = []") (simp_all add: s' spaced_Cons)
    qed (use mi ns' in \<open>simp_all add: s'\<close>)
  qed
qed

lemma run_inv: "limiter_inv mi s \<Longrightarrow> run s es = Some s' \<Longrightarrow> limiter_inv mi s'"
  by (induction es arbitrary: s) (auto split: option.splits dest: step_inv)

subsection \<open>A caller inside \<open>acquire\<close> returns\<close>

lemma run_append:
  "run s (es @ later) = (case run s es of None \<Rightarrow> None | Some s' \<Rightarrow> run s' later)"
  by (induction es arbitrary: s) (simp_all split: option.splits)

lemma sleeper_returns:
  assumes "lim_pc s i = Sleeping deadline"
  shows "\<exists>s'. run s [Tick (max 0 (deadline - lim_clock s)), Wake i] = Some s'
              \<and> returned_from s s' i \<and> \<not> lim_locked s'
              \<and> lim_min_interval s' = lim_min_interval s
              \<and> (\<forall>k. k \<noteq> i \<longrightarrow> lim_pc s' k = lim_pc s k)"
  using assms by (simp add: returned_from_def max_def)

lemma queued_returns:
  assumes q: "lim_pc s i = Queued" and free: "\<not> lim_locked s"
  shows "\<exists>es s'. run s es = Some s' \<and> returned_from s s' i"
proof (cases "wait_time (lim_min_interval s) (lim_clock s) (lim_last_request_time s)")
  case None
  with q free have "\<exists>s'. run s [Enter i 0] = Some s' \<and> returned_from s s' i"
    by (simp add: returned_from_def)
  then show ?thesis by blast
next
  case (Some w)
  then have "0 \<le> w" by (simp add: wait_time_def Let_def split: if_splits)
  with Some q free
  have "\<exists>s'. run s [Enter i 0, Tick w, Wake i] = Some s' \<and> returned_from s s' i"
    by (simp add: returned_from_def)
  then show ?thesis by blast
qed

lemma caller_returns:
  assumes inv: "limiter_inv mi s" and inside: "lim_pc s i \<noteq> Outside"
  shows "\<exists>es s'. run s es = Some s' \<and> returned_from s s' i"
proof (cases "lim_pc s i")
  case Outside
  with inside show ?thesis by simp
next
  case (Sleeping deadline)
  from sleeper_returns [OF this] show ?thesis by blast
next
  case Queued
  show ?thesis
  proof (cases "lim_locked s")
    case False
    from queued_returns [OF Queued False] show ?thesis .
  next
    case True
    with inv obtain j where "is_sleeping (lim_pc s j)" unfolding limiter_inv_def by blast
    then obtain deadline where j: "lim_pc s j = Sleeping deadline" by (cases "lim_pc s j") simp_all
    with Queued have ne: "i \<noteq> j" by auto
    let ?first = "[Tick (max 0 (deadline - lim_clock s)), Wake j]"
    from sleeper_returns [OF j] obtain s1 where
      s1: "run s ?first = Some s1" "returned_from s s1 j" "\<not> lim_locked s1"
        "\<forall>k. k \<noteq> j \<longrightarrow> lim_pc s1 k = lim_pc s k" by blast
    from s1(4) ne Queued have q1: "lim_pc s1 i = Queued" by simp
    from queued_returns [OF q1 s1(3)] obtain es s' where
      s': "run s1 es = Some s'" "returned_from s1 s' i" by blast
    have "run s (?first @ es) = Some s'"
      using s1(1) s'(1) by (simp only: run_append option.case)
    moreover have "returned_from s s' i"
      using s1(2) s'(2) by (simp add: returned_from_def)
    ultimately show ?thesis by blast
  qed
qed

text \<open>
  C8: for every \<open>requests_per_minute\<close> \<open>R > 0\<close> the limiter is built with the
  interval \<open>60/R\<close>, and in every state it reaches from there: any two consecutive
  granted calls have recorded times at least \<open>60/R\<close> apart (a caller is held until
  that much time has passed since the previous grant); the time of the latest grant
  is the recorded \<open>last_request_time\<close>; at most one task is inside the critical
  section, and the lock is held exactly while one is; and every caller inside
  \<open>acquire\<close> does return, after recording the time of its grant.
\<close>

theorem acquire_interval:
  "0 < R \<Longrightarrow>
     \<exists>l0. RateLimiter_init R t0 = Inr l0
       \<and> lim_min_interval l0 = 60 / real_of_int R
       \<and> (\<forall>es s. run l0 es = Some s \<longrightarrow>
             spaced (60 / real_of_int R) (lim_grants s)
             \<and> (lim_grants s \<noteq> [] \<longrightarrow> lim_last_request_time s = hd (lim_grants s))
             \<and> (\<forall>i j. is_sleeping (lim_pc s i) \<and> is_sleeping (lim_pc s j) \<longrightarrow> i = j)
             \<and> (lim_locked s = (\<exists>i. is_sleeping (lim_pc s i)))
             \<and> (\<forall>i. lim_pc s i \<noteq> Outside \<longrightarrow>
                   (\<exists>later s'. run s later = Some s' \<and> returned_from s s' i)))"
proof -
  assume R: "0 < R"
  then obtain l0 where l0: "RateLimiter_init R t0 = Inr l0"
    by (simp add: RateLimiter_init_def)
  have mi: "lim_min_interval l0 = 60 / real_of_int R"
    using l0 R by (auto simp: RateLimiter_init_def)
  have "spaced (60 / real_of_int R) (lim_grants s)
        \<and> (lim_grants s \<noteq> [] \<longrightarrow> lim_last_request_time s = hd (lim_grants s))
        \<and> (\<forall>i j. is_sleeping (lim_pc s i) \<and> is_sleeping (lim_pc s j) \<longrightarrow> i = j)
        \<and> (lim_locked s = (\<exists>i. is_sleeping (lim_pc s i)))
        \<and> (\<forall>i. lim_pc s i \<noteq> Outside \<longrightarrow>
              (\<exists>later s'. run s later = Some s' \<and> returned_from s s' i))"
    if r: "run l0 es = Some s" for es s
  proof -
    from run_inv [OF limiter_inv_init [OF l0] r]
    have inv: "limiter_inv (60 / real_of_int R) s" .
    then have "spaced (60 / real_of_int R) (lim_grants s)
        \<and> (lim_grants s \<noteq> [] \<longrightarrow> lim_last_request_time s = hd (lim_grants s))
        \<and> (\<forall>i j. is_sleeping (lim_pc s i) \<and> is_sleeping (lim_pc s j) \<longrightarrow> i = j)
        \<and> (lim_locked s = (\<exists>i. is_sleeping (lim_pc s i)))"
      by (auto simp: limiter_inv_def)
    moreover have "\<forall>i. lim_pc s i \<noteq> Outside \<longrightarrow>
              (\<exists>later s'. run s later = Some s' \<and> returned_from s s' i)"
      using caller_returns [OF inv] by blast
    ultimately show ?thesis by blast
  qed
  with l0 mi show ?thesis by blast
qed

theorem acquire_interval_witness:
  "(0::int) < 30
   \<and> (\<exists>l0. RateLimiter_init 30 100 = Inr l0
         \<and> lim_min_interval l0 = 2
         \<and> map_option lim_grants (run l0 two_callers) = Some [105, 102, 100]
         \<and> spaced 2 [105, 102, 100])"
proof -
  from acquire_interval [of 30 100] obtain l0 where
    l0: "RateLimiter_init 30 100 = Inr l0" "lim_min_interval l0 = 60 / real_of_int 30"
    and all: "\<forall>es s. run l0 es = Some s \<longrightarrow> spaced (60 / real_of_int 30) (lim_grants s)"
    by auto
  from l0(1) obtain s where s: "run l0 two_callers = Some s"
    "lim_grants s = [105, 102, 100]"
    by (auto simp: RateLimiter_init_def two_callers_def wait_time_def)
  from all s have "spaced (60 / real_of_int 30) [105, 102, 100]" by fastforce
  with l0 s show ?thesis by simp
qed

section \<open>Properties of the parser\<close>

subsection \<open>The paths of \<open>parse\<close>\<close>

lemma retry_attempts_returns:
  "body w = (Inr r, w') \<Longrightarrow> retry_attempts n a retryable body w = (Inr r, w')"
  by (cases n) simp_all

lemma acquire_requests: "w_requests (acquire mi w) = w_requests w"
  by (simp add: acquire_def split: option.splits)

lemma parse_with_api_body_returns:
  "client_ready env \<Longrightarrow> \<exists>r w'. parse_with_api_body env path strategy w = (Inr r, w')"
  by (auto simp: parse_with_api_body_def Let_def split: sum.splits)

lemma parse_with_api_eq_body:
  assumes "client_ready env"
  shows "parse_with_api env path strategy w = parse_with_api_body env path strategy w"
proof -
  from parse_with_api_body_returns [OF assms]
  obtain r w' where b: "parse_with_api_body env path strategy w = (Inr r, w')" by blast
  have "retry_attempts 2 1 api_retryable (parse_with_api_body env path strategy) w = (Inr r, w')"
    using b by (rule retry_attempts_returns)
  with b show ?thesis by (simp add: parse_with_api_def retry3_def)
qed

lemma parse_raises:
  "file_exists env = Inl (errno, strerror) \<Longrightarrow>
     parse env path strategy use_api w = (Inl (OSError errno strerror path), w)"
  by (simp add: parse_def)

lemma parse_missing:
  "file_exists env = Inr False \<Longrightarrow>
     parse env path strategy use_api w = (Inr (error_result path strategy 0 ''File not found''), w)"
  by (simp add: parse_def error_result_def ParseResult_default_def)

lemma parse_api:
  assumes "file_exists env = Inr True" "use_api" "client_ready env"
  shows "fst (parse env path strategy use_api w) =
           (case api_try env path strategy of
              Inl e \<Rightarrow> Inr (error_result path strategy
                              (if api_read env = None then api_latency env else 0) (exc_str e))
            | Inr ok \<Rightarrow> Inr ok)"
  using assms
  by (auto simp: parse_def parse_with_api_eq_body parse_with_api_body_def Let_def
        error_result_def split: sum.splits)

lemma parse_local_path:
  assumes "file_exists env = Inr True" "\<not> (use_api \<and> client_ready env)"
  shows "fst (parse env path strategy use_api w) =
           (case local_try env path strategy of
              Inl (ImportError m) \<Rightarrow>
                Inr (error_result path strategy
                       (if local_import env = None then local_latency env else 0)
                       ''Local parsing requires: pip install unstructured[pdf]'')
            | Inl e \<Rightarrow> Inr (error_result path strategy
                              (if local_import env = None then local_latency env else 0)
                              (exc_str e))
            | Inr ok \<Rightarrow> Inr ok)"
  using assms
  by (auto simp: parse_def parse_local_def Let_def error_result_def
           split: sum.splits py_exception.splits)

text \<open>The value \<open>parse\<close> returns or raises does not depend on the clock or the limiter.\<close>

lemma parse_world_independent:
  "fst (parse env path strategy use_api w) = fst (parse env path strategy use_api w')"
proof (cases "file_exists env")
  case (Inl a)
  then show ?thesis by (cases a) (simp add: parse_raises)
next
  case (Inr found)
  show ?thesis
  proof (cases found)
    case False
    with Inr show ?thesis by (simp add: parse_missing)
  next
    case True
    with Inr have fe: "file_exists env = Inr True" by simp
    show ?thesis
    proof (cases "use_api \<and> client_ready env")
      case api: True
      then show ?thesis using parse_api [OF fe, of use_api] by simp
    next
      case False
      then show ?thesis using parse_local_path [OF fe False] by simp
    qed
  qed
qed

lemma error_result_fields:
  "pr_error (error_result path strategy t msg) = Some msg"
  "pr_text (error_result path strategy t msg) = []"
  "pr_elements (error_result path strategy t msg) = None"
  "pr_token_count (error_result path strategy t msg) = None"
  "pr_file_path (error_result path strategy t msg) = path"
  "pr_strategy (error_result path strategy t msg) = strategy"
  by (simp_all add: error_result_def ParseResult_default_def)

lemma api_try_ok:
  "api_try env path strategy = Inr ok \<Longrightarrow>
     pr_error ok = None \<and> pr_elements ok \<noteq> None \<and> pr_token_count ok \<noteq> None
     \<and> pr_file_path ok = path \<and> pr_strategy ok = strategy
     \<and> api_read env = None \<and> \<not> isl (api_partition env) \<and> \<not> isl (api_stat env)"
  by (auto simp: api_try_def api_result_def Let_def split: option.splits sum.splits)

lemma local_try_ok:
  "local_try env path strategy = Inr ok \<Longrightarrow>
     pr_error ok = None \<and> pr_elements ok \<noteq> None \<and> pr_token_count ok \<noteq> None
     \<and> pr_file_path ok = path \<and> pr_strategy ok = strategy
     \<and> local_import env = None \<and> \<not> isl (local_partition env)"
  by (auto simp: local_try_def local_result_def Let_def split: option.splits sum.splits)

text \<open>
  \<open>parse\<close> raises exactly when \<open>exists()\<close> does, and then that \<open>OSError\<close>, whose
  string is not empty; otherwise it returns an error result or the success of its
  \<open>try\<close> block.
\<close>

lemma parse_outcome:
  "(case file_exists env of
      Inl a \<Rightarrow> fst (parse env path strategy use_api w) = Inl (OSError (fst a) (snd a) path)
    | Inr found \<Rightarrow>
        (\<exists>r. fst (parse env path strategy use_api w) = Inr r
           \<and> pr_file_path r = path \<and> pr_strategy r = strategy
           \<and> ((\<exists>t msg. r = error_result path strategy t msg)
              \<or> (pr_error r = None \<and> pr_elements r \<noteq> None \<and> pr_token_count r \<noteq> None))))"
proof (cases "file_exists env")
  case (Inl a)
  then show ?thesis by (cases a) (simp add: parse_raises)
next
  case (Inr found)
  show ?thesis
  proof (cases found)
    case False
    with Inr show ?thesis by (auto simp: parse_missing error_result_fields)
  next
    case True
    with Inr have fe: "file_exists env = Inr True" by simp
    show ?thesis
    proof (cases "use_api \<and> client_ready env")
      case api: True
      then have u: "use_api" and c: "client_ready env" by simp_all
      show ?thesis
      proof (cases "api_try env path strategy")
        case (Inl e)
        with parse_api [OF fe u c, of path strategy w] Inr show ?thesis
          by (auto simp: error_result_fields)
      next
        case ok: (Inr r)
        with parse_api [OF fe u c, of path strategy w] api_try_ok [OF ok] Inr show ?thesis
          by auto
      qed
    next
      case False
      show ?thesis
      proof (cases "local_try env path strategy")
        case (Inl e)
        with parse_local_path [OF fe False, of path strategy w] Inr show ?thesis
          by (cases e) (auto simp: error_result_fields)
      next
        case ok: (Inr r)
        with parse_local_path [OF fe False, of path strategy w] local_try_ok [OF ok] Inr
        show ?thesis by auto
      qed
    qed
  qed
qed

lemma exc_str_OSError: "exc_str (OSError errno strerror filename) \<noteq> []"
  by simp

lemma parse_raised:
  "fst (parse env path strategy use_api w) = Inl e \<Longrightarrow>
     (\<exists>errno strerror. file_exists env = Inl (errno, strerror) \<and> e = OSError errno strerror path)
     \<and> exc_str e \<noteq> []"
  using parse_outcome [of env path strategy use_api w]
  by (cases "file_exists env") auto

lemma parse_returned:
  "fst (parse env path strategy use_api w) = Inr r \<Longrightarrow>
     pr_file_path r = path \<and> pr_strategy r = strategy
     \<and> ((\<exists>t msg. r = error_result path strategy t msg)
        \<or> (pr_error r = None \<and> pr_elements r \<noteq> None \<and> pr_token_count r \<noteq> None))"
  using parse_outcome [of env path strategy use_api w]
  by (cases "file_exists env") auto

text \<open>
  When \<open>exists()\<close> returns, \<open>parse\<close> returns a result; each failure of the chosen
  path gives the string of its exception (the install hint for an \<open>ImportError\<close>)
  as the error, with empty text.
\<close>

lemma parse_returns_when_exists_returns:
  assumes "file_exists env = Inr found"
  shows "\<exists>r. fst (parse env path strategy use_api w) = Inr r
    \<and> (\<not> found \<longrightarrow> pr_error r = Some ''File not found'' \<and> pr_text r = [])
    \<and> (found \<and> use_api \<and> client_ready env \<longrightarrow>
         (\<forall>e. api_try env path strategy = Inl e \<longrightarrow>
                pr_error r = Some (exc_str e) \<and> pr_text r = []))
    \<and> (found \<and> \<not> (use_api \<and> client_ready env) \<longrightarrow>
         (\<forall>e. local_try env path strategy = Inl e \<longrightarrow>
                pr_error r \<noteq> None \<and> pr_text r = []))"
proof (cases found)
  case False
  with assms show ?thesis by (simp add: parse_missing error_result_fields)
next
  case True
  with assms have fe: "file_exists env = Inr True" by simp
  show ?thesis
  proof (cases "use_api \<and> client_ready env")
    case api: True
    then have u: "use_api" and c: "client_ready env" by simp_all
    show ?thesis
      using parse_api [OF fe u c, of path strategy w] True api
      by (cases "api_try env path strategy") (auto simp: error_result_fields)
  next
    case False
    show ?thesis
    proof (cases "local_try env path strategy")
      case (Inl e)
      with parse_local_path [OF fe False, of path strategy w] True False show ?thesis
        by (cases e) (auto simp: error_result_fields)
    next
      case (Inr ok)
      with parse_local_path [OF fe False, of path strategy w] True False show ?thesis
        by auto
    qed
  qed
qed

lemma parse_page:
  "fst (parse (page_env content) path HI_RES True w) = Inr (page_result path content)"
proof -
  have fe: "file_exists (page_env content) = Inr True" by (simp add: page_env_def)
  have c: "client_ready (page_env content)" by (simp add: page_env_def)
  have "api_try (page_env content) path HI_RES = Inr (page_result path content)"
    by (simp add: api_try_def page_env_def page_result_def)
  with parse_api [OF fe _ c, of True path HI_RES w] show ?thesis by simp
qed

lemma parse_denied:
  "fst (parse denied_env path strategy use_api w) = Inl (OSError 13 ''Permission denied'' path)"
proof -
  have "file_exists denied_env = Inl (13, ''Permission denied'')"
    by (simp add: denied_env_def)
  from parse_raises [OF this] show ?thesis by simp
qed

lemma parse_timeout:
  "fst (parse timeout_env path HI_RES True w) = Inr (error_result path HI_RES 120 [])"
proof -
  have fe: "file_exists timeout_env = Inr True" by (simp add: timeout_env_def page_env_def)
  have c: "client_ready timeout_env" by (simp add: timeout_env_def page_env_def)
  have "api_try timeout_env path HI_RES = Inl (TimeoutError [])"
    by (simp add: api_try_def timeout_env_def page_env_def)
  with parse_api [OF fe _ c, of True path HI_RES w] show ?thesis
    by (simp add: timeout_env_def page_env_def)
qed

text \<open>
  C7 (the code at two failing inputs): for a file in a directory that may not be
  searched, \<open>exists()\<close> raises and \<open>parse\<close> raises that \<open>OSError\<close> to its caller
  instead of returning a result; and when the partition request of an existing
  file times out, \<open>parse\<close> returns a result whose error is the string of the
  \<open>TimeoutError\<close>, which is empty, so the error is not populated and tests as
  false.
\<close>

theorem parse_raises_and_empty_error:
  "fst (parse denied_env ''private/b.pdf'' HI_RES True start_world)
     = Inl (OSError 13 ''Permission denied'' ''private/b.pdf'')
   \<and> (\<exists>r. fst (parse timeout_env ''a.pdf'' HI_RES True start_world) = Inr r
         \<and> pr_error r = Some [] \<and> \<not> truthy_str (pr_error r) \<and> pr_text r = []
         \<and> pr_parse_time r = 120)"
  by (simp add: parse_denied parse_timeout error_result_def ParseResult_default_def)

subsection \<open>The invariant of \<open>ParseResult\<close>\<close>

lemma error_result_invariant: "ParseResult_invariant (error_result path strategy t msg)"
  by (simp add: ParseResult_invariant_def error_result_fields)

lemma parse_invariant:
  "fst (parse env path strategy use_api w) = Inr r \<Longrightarrow> ParseResult_invariant r"
proof -
  assume "fst (parse env path strategy use_api w) = Inr r"
  from parse_returned [OF this]
  have "(\<exists>t msg. r = error_result path strategy t msg)
        \<or> (pr_error r = None \<and> pr_elements r \<noteq> None \<and> pr_token_count r \<noteq> None)"
    by blast
  then show ?thesis
  proof
    assume "\<exists>t msg. r = error_result path strategy t msg"
    then show ?thesis using error_result_invariant by blast
  next
    assume "pr_error r = None \<and> pr_elements r \<noteq> None \<and> pr_token_count r \<noteq> None"
    then show ?thesis by (simp add: ParseResult_invariant_def)
  qed
qed

subsection \<open>\<open>gather\<close> and \<open>parse_batch\<close>\<close>

lemma length_fold_update:
  "length (fold (\<lambda>d slots. slots[fst d := Some (snd d)]) cs slots) = length slots"
  by (induction cs arbitrary: slots) simp_all

lemma fold_update_untouched:
  "i \<notin> fst ` set cs \<Longrightarrow>
     fold (\<lambda>d slots. slots[fst d := Some (snd d)]) cs slots ! i = slots ! i"
  by (induction cs arbitrary: slots) auto

lemma fold_update_stored:
  "distinct (map fst cs) \<Longrightarrow> (i, out) \<in> set cs \<Longrightarrow> i < length slots \<Longrightarrow>
     fold (\<lambda>d slots. slots[fst d := Some (snd d)]) cs slots ! i = Some out"
proof (induction cs arbitrary: slots)
  case Nil
  then show ?case by simp
next
  case (Cons c cs)
  show ?case
  proof (cases "c = (i, out)")
    case True
    with Cons.prems(1) have "i \<notin> fst ` set cs" by auto
    with True Cons.prems(3) show ?thesis by (simp add: fold_update_untouched)
  next
    case False
    with Cons.prems have "(i, out) \<in> set cs" "distinct (map fst cs)" by auto
    with Cons.IH [of "slots[fst c := Some (snd c)]"] Cons.prems(3) show ?thesis by simp
  qed
qed

lemma fold_update_origin:
  "fold (\<lambda>d slots. slots[fst d := Some (snd d)]) cs slots ! i = Some out \<Longrightarrow>
     i < length slots \<Longrightarrow> slots ! i = Some out \<or> (i, out) \<in> set cs"
proof (induction cs arbitrary: slots)
  case Nil
  then show ?case by simp
next
  case (Cons c cs)
  from Cons.IH [of "slots[fst c := Some (snd c)]"] Cons.prems
  have "slots[fst c := Some (snd c)] ! i = Some out \<or> (i, out) \<in> set cs" by simp
  then show ?case
    using Cons.prems(2) by (cases "fst c = i") (auto simp: prod_eq_iff)
qed

lemma gather_length: "length (gather n cs) = n"
  by (simp add: gather_def length_fold_update)

lemma gather_stored:
  "distinct (map fst cs) \<Longrightarrow> (i, out) \<in> set cs \<Longrightarrow> i < n \<Longrightarrow> gather n cs ! i = Some out"
  by (simp add: gather_def fold_update_stored)

lemma gather_origin:
  "gather n cs ! i = Some out \<Longrightarrow> i < n \<Longrightarrow> (i, out) \<in> set cs"
  using fold_update_origin [of cs "replicate n None" i out] by (simp add: gather_def)

lemma valid_schedule_set:
  assumes "valid_schedule n schedule"
  shows "set schedule = {..<n}"
proof (rule card_subset_eq)
  show "finite {..<n}" by simp
  show "set schedule \<subseteq> {..<n}"
    using assms by (auto simp: valid_schedule_def list_all_iff)
  show "card (set schedule) = card {..<n}"
    using assms by (simp add: valid_schedule_def distinct_card)
qed

lemma run_tasks_outcomes:
  "fst (run_tasks envs cancelled file_paths strategy use_api schedule w)
     = map (\<lambda>i. (i, if cancelled i then Cancelled
                     else task_outcome (fst (parse (envs i) (file_paths ! i) strategy use_api w0))))
           schedule"
proof (induction schedule arbitrary: w)
  case Nil
  show ?case by simp
next
  case (Cons i schedule)
  show ?case
    using parse_world_independent [of "envs i" "file_paths ! i" strategy use_api w w0]
    by (simp add: Let_def Cons.IH)
qed

lemma gather_schedule:
  assumes v: "valid_schedule n schedule"
  shows "gather n (map (\<lambda>i. (i, f i)) schedule) = map (\<lambda>i. Some (f i)) [0..<n]"
proof (rule nth_equalityI)
  show "length (gather n (map (\<lambda>i. (i, f i)) schedule)) = length (map (\<lambda>i. Some (f i)) [0..<n])"
    by (simp add: gather_length)
next
  fix i assume "i < length (gather n (map (\<lambda>i. (i, f i)) schedule))"
  then have i: "i < n" by (simp add: gather_length)
  with valid_schedule_set [OF v] have "i \<in> set schedule" by simp
  then have m: "(i, f i) \<in> set (map (\<lambda>i. (i, f i)) schedule)" by force
  have d: "distinct (map fst (map (\<lambda>i. (i, f i)) schedule))"
    using v by (simp add: valid_schedule_def comp_def)
  from gather_stored [OF d m i] i
  show "gather n (map (\<lambda>i. (i, f i)) schedule) ! i = map (\<lambda>i. Some (f i)) [0..<n] ! i"
    by simp
qed

lemma parse_batch_value:
  assumes mc: "0 < max_concurrent" and v: "valid_schedule (length file_paths) schedule"
  shows "parse_batch envs cancelled file_paths strategy use_api max_concurrent schedule w
         = Some (Inr (map (expected_slot envs cancelled file_paths strategy use_api w)
                          [0..<length file_paths]))"
proof (cases "file_paths = []")
  case True
  with mc show ?thesis by (simp add: parse_batch_def)
next
  case False
  let ?n = "length file_paths"
  let ?f = "\<lambda>i. if cancelled i then Cancelled
                else task_outcome (fst (parse (envs i) (file_paths ! i) strategy use_api w))"
  have c: "fst (run_tasks envs cancelled file_paths strategy use_api schedule w)
           = map (\<lambda>i. (i, ?f i)) schedule"
    by (rule run_tasks_outcomes)
  have g: "gather ?n (map (\<lambda>i. (i, ?f i)) schedule) = map (\<lambda>i. Some (?f i)) [0..<?n]"
    by (rule gather_schedule [OF v])
  have all: "list_all (\<lambda>slot. slot \<noteq> None) (map (\<lambda>i. Some (?f i)) [0..<?n])"
    by (simp add: list_all_iff)
  have z: "map (\<lambda>(path, slot). batch_slot path strategy (the slot))
               (zip file_paths (map (\<lambda>i. Some (?f i)) [0..<?n]))
           = map (expected_slot envs cancelled file_paths strategy use_api w) [0..<?n]"
    by (rule nth_equalityI) (simp_all add: expected_slot_def)
  have "parse_batch envs cancelled file_paths strategy use_api max_concurrent schedule w
        = Some (Inr (map (\<lambda>(path, slot). batch_slot path strategy (the slot))
               (zip file_paths (map (\<lambda>i. Some (?f i)) [0..<?n]))))"
    using mc v False all unfolding parse_batch_def Let_def c g by simp
  then show ?thesis unfolding z .
qed

text \<open>
  What the bound on the concurrency and a cancellation do: a negative bound raises
  before any task is made, a bound of 0 with files to parse never returns, and the
  slot of a cancelled task holds its \<open>CancelledError\<close>, not a \<open>ParseResult\<close>.
\<close>

lemma parse_batch_gate:
  "max_concurrent < 0 \<Longrightarrow>
     parse_batch envs cancelled file_paths strategy use_api max_concurrent schedule w
       = Some (Inl (ValueError ''Semaphore initial value must be >= 0''))"
  "file_paths \<noteq> [] \<Longrightarrow>
     parse_batch envs cancelled file_paths strategy use_api 0 schedule w = None"
  by (simp_all add: parse_batch_def)

lemma parse_batch_cancelled_slot:
  assumes "0 < max_concurrent" "valid_schedule (length file_paths) schedule"
    "i < length file_paths" "cancelled i"
  shows "\<exists>results.
       parse_batch envs cancelled file_paths strategy use_api max_concurrent schedule w
         = Some (Inr results) \<and> results ! i = CancelledError"
  using parse_batch_value [OF assms(1,2), of envs cancelled strategy use_api w] assms(3,4)
  by (simp add: expected_slot_def batch_slot_def)

text \<open>
  C6: for every input list of files, every positive bound on the concurrency and
  every order in which the tasks complete, none of them cancelled from outside,
  \<open>parse_batch\<close> returns a list of the length of the input in which slot \<open>i\<close> holds
  what \<open>parse\<close> returned for file \<open>i\<close> or, if \<open>parse\<close> raised for it, a synthesized
  result for file \<open>i\<close> with the string of the exception, which is not empty, as its
  error and with empty text. The slot is determined by the file's own outcome, so
  no exception of another file aborts or alters it, and every other completion
  order gives the same list.
\<close>

theorem parse_batch_order:
  assumes mc: "0 < max_concurrent" and v: "valid_schedule (length file_paths) schedule"
    and nc: "\<forall>i < length file_paths. \<not> cancelled i"
  shows "\<exists>results.
       parse_batch envs cancelled file_paths strategy use_api max_concurrent schedule w
         = Some (Inr results)
     \<and> length results = length file_paths
     \<and> (\<forall>i < length file_paths.
           (case fst (parse (envs i) (file_paths ! i) strategy use_api w) of
              Inr r \<Rightarrow> results ! i = Parsed r
            | Inl e \<Rightarrow>
                (\<exists>r. results ! i = Parsed r \<and> pr_file_path r = file_paths ! i
                    \<and> pr_error r = Some (exc_str e) \<and> exc_str e \<noteq> [] \<and> pr_text r = [])))
     \<and> (\<forall>other. valid_schedule (length file_paths) other \<longrightarrow>
           parse_batch envs cancelled file_paths strategy use_api max_concurrent other w
             = Some (Inr results))"
proof -
  let ?results = "map (expected_slot envs cancelled file_paths strategy use_api w)
                      [0..<length file_paths]"
  have 1: "parse_batch envs cancelled file_paths strategy use_api max_concurrent schedule w
           = Some (Inr ?results)"
    by (rule parse_batch_value [OF mc v])
  have 2: "length ?results = length file_paths" by simp
  have 3: "\<forall>i < length file_paths.
           (case fst (parse (envs i) (file_paths ! i) strategy use_api w) of
              Inr r \<Rightarrow> ?results ! i = Parsed r
            | Inl e \<Rightarrow>
                (\<exists>r. ?results ! i = Parsed r \<and> pr_file_path r = file_paths ! i
                    \<and> pr_error r = Some (exc_str e) \<and> exc_str e \<noteq> [] \<and> pr_text r = []))"
  proof (intro allI impI)
    fix i assume i: "i < length file_paths"
    with nc have n: "\<not> cancelled i" by simp
    show "case fst (parse (envs i) (file_paths ! i) strategy use_api w) of
              Inr r \<Rightarrow> ?results ! i = Parsed r
            | Inl e \<Rightarrow>
                (\<exists>r. ?results ! i = Parsed r \<and> pr_file_path r = file_paths ! i
                    \<and> pr_error r = Some (exc_str e) \<and> exc_str e \<noteq> [] \<and> pr_text r = [])"
    proof (cases "fst (parse (envs i) (file_paths ! i) strategy use_api w)")
      case (Inl e)
      from parse_raised [OF Inl] have "exc_str e \<noteq> []" by blast
      with Inl i n show ?thesis
        by (simp add: expected_slot_def task_outcome_def batch_slot_def ParseResult_default_def)
    next
      case (Inr r)
      with i n show ?thesis
        by (simp add: expected_slot_def task_outcome_def batch_slot_def)
    qed
  qed
  have 4: "\<forall>other. valid_schedule (length file_paths) other \<longrightarrow>
           parse_batch envs cancelled file_paths strategy use_api max_concurrent other w
             = Some (Inr ?results)"
    using parse_batch_value [OF mc] by blast
  from 1 2 3 4 show ?thesis by blast
qed

theorem parse_batch_order_witness:
  "(0::int) < 5 \<and> valid_schedule (length three_files) [2, 0, 1]
   \<and> \<not> nobody 0 \<and> \<not> nobody 1 \<and> \<not> nobody 2
   \<and> (\<exists>results. parse_batch three_envs nobody three_files HI_RES True 5 [2, 0, 1] start_world
                   = Some (Inr results)
         \<and> length results = 3
         \<and> results ! 0 = Parsed (page_result ''a.pdf'' ''first'')
         \<and> (\<exists>r. results ! 1 = Parsed r \<and> pr_text r = []
                \<and> pr_error r = Some (exc_str (OSError 13 ''Permission denied'' ''private/b.pdf'')))
         \<and> results ! 2 = Parsed (page_result ''c.pdf'' ''third''))"
proof -
  have v: "valid_schedule (length three_files) [2, 0, 1]"
    by (simp add: valid_schedule_def three_files_def)
  have nc: "\<forall>i < length three_files. \<not> nobody i" by (simp add: nobody_def)
  have l: "length three_files = 3" by (simp add: three_files_def)
  have f0: "three_files ! 0 = ''a.pdf''" and f1: "three_files ! 1 = ''private/b.pdf''"
    and f2: "three_files ! 2 = ''c.pdf''" by (simp_all add: three_files_def)
  have e0: "three_envs 0 = page_env ''first''" and e1: "three_envs 1 = denied_env"
    and e2: "three_envs 2 = page_env ''third''" by (simp_all add: three_envs_def)
  from parse_batch_order [OF _ v nc, of 5 three_envs HI_RES True start_world]
  obtain results where r:
    "parse_batch three_envs nobody three_files HI_RES True 5 [2, 0, 1] start_world
       = Some (Inr results)"
    "length results = length three_files"
    "\<forall>i < length three_files.
           (case fst (parse (three_envs i) (three_files ! i) HI_RES True start_world) of
              Inr r \<Rightarrow> results ! i = Parsed r
            | Inl e \<Rightarrow>
                (\<exists>r. results ! i = Parsed r \<and> pr_file_path r = three_files ! i
                    \<and> pr_error r = Some (exc_str e) \<and> exc_str e \<noteq> [] \<and> pr_text r = []))"
    by auto
  have "0 < length three_files" using l by simp
  with r(3) have "case fst (parse (three_envs 0) (three_files ! 0) HI_RES True start_world) of
              Inr r \<Rightarrow> results ! 0 = Parsed r
            | Inl e \<Rightarrow>
                (\<exists>r. results ! 0 = Parsed r \<and> pr_file_path r = three_files ! 0
                    \<and> pr_error r = Some (exc_str e) \<and> exc_str e \<noteq> [] \<and> pr_text r = [])"
    by blast
  then have 0: "results ! 0 = Parsed (page_result ''a.pdf'' ''first'')"
    unfolding e0 f0 parse_page by simp
  have "1 < length three_files" using l by simp
  with r(3) have "case fst (parse (three_envs 1) (three_files ! 1) HI_RES True start_world) of
              Inr r \<Rightarrow> results ! 1 = Parsed r
            | Inl e \<Rightarrow>
                (\<exists>r. results ! 1 = Parsed r \<and> pr_file_path r = three_files ! 1
                    \<and> pr_error r = Some (exc_str e) \<and> exc_str e \<noteq> [] \<and> pr_text r = [])"
    by blast
  then have 1: "\<exists>r. results ! 1 = Parsed r \<and> pr_text r = []
                \<and> pr_error r = Some (exc_str (OSError 13 ''Permission denied'' ''private/b.pdf''))"
    unfolding e1 f1 parse_denied by auto
  have "2 < length three_files" using l by simp
  with r(3) have "case fst (parse (three_envs 2) (three_files ! 2) HI_RES True start_world) of
              Inr r \<Rightarrow> results ! 2 = Parsed r
            | Inl e \<Rightarrow>
                (\<exists>r. results ! 2 = Parsed r \<and> pr_file_path r = three_files ! 2
                    \<and> pr_error r = Some (exc_str e) \<and> exc_str e \<noteq> [] \<and> pr_text r = [])"
    by blast
  then have 2: "results ! 2 = Parsed (page_result ''c.pdf'' ''third'')"
    unfolding e2 f2 parse_page by simp
  from r(2) l have 3: "length results = 3" by simp
  have z: "(0::int) < 5" by simp
  have n: "\<not> nobody 0 \<and> \<not> nobody 1 \<and> \<not> nobody 2" by (simp add: nobody_def)
  from z v n r(1) 3 0 1 2 show ?thesis by blast
qed

lemma parse_batch_results:
  assumes "parse_batch envs cancelled file_paths strategy use_api max_concurrent schedule w
           = Some (Inr results)"
  shows "results = map (expected_slot envs cancelled file_paths strategy use_api w)
                       [0..<length file_paths]"
proof (cases "file_paths = []")
  case True
  with assms show ?thesis by (simp add: parse_batch_def split: if_splits)
next
  case False
  with assms have mc: "0 < max_concurrent"
    and v: "valid_schedule (length file_paths) schedule"
    by (auto simp: parse_batch_def split: if_splits)
  from parse_batch_value [OF mc v, of envs cancelled strategy use_api w] assms
  show ?thesis by simp
qed

lemma expected_slot_invariant:
  "expected_slot envs cancelled file_paths strategy use_api w i = Parsed r
   \<Longrightarrow> ParseResult_invariant r"
proof (cases "fst (parse (envs i) (file_paths ! i) strategy use_api w)")
  case (Inl e)
  assume "expected_slot envs cancelled file_paths strategy use_api w i = Parsed r"
  with Inl show ?thesis
    by (auto simp: expected_slot_def task_outcome_def batch_slot_def ParseResult_invariant_def
          ParseResult_default_def split: if_splits)
next
  case (Inr r')
  assume "expected_slot envs cancelled file_paths strategy use_api w i = Parsed r"
  with Inr parse_invariant [OF Inr] show ?thesis
    by (auto simp: expected_slot_def task_outcome_def batch_slot_def split: if_splits)
qed

text \<open>
  C9: every \<open>ParseResult\<close> the parser produces satisfies the invariant that \<open>error\<close>
  is set (not \<open>None\<close>) if and only if \<open>text\<close> is empty and \<open>elements\<close> and
  \<open>token_count\<close> are \<open>None\<close>: every result \<open>parse\<close> returns does (and it returns one
  whenever \<open>exists()\<close> returns), and so does every \<open>ParseResult\<close> in every list
  \<open>parse_batch\<close> returns; when no task is cancelled every entry of the list is one.
\<close>

theorem parse_result_invariant:
  "(\<forall>r. fst (parse env path strategy use_api w) = Inr r \<longrightarrow> ParseResult_invariant r)
   \<and> (\<forall>found. file_exists env = Inr found \<longrightarrow>
         (\<exists>r. fst (parse env path strategy use_api w) = Inr r \<and> ParseResult_invariant r))
   \<and> (\<forall>results.
         parse_batch envs cancelled file_paths strategy' use_api' max_concurrent schedule w'
           = Some (Inr results)
         \<longrightarrow> (\<forall>r. Parsed r \<in> set results \<longrightarrow> ParseResult_invariant r)
           \<and> ((\<forall>i < length file_paths. \<not> cancelled i) \<longrightarrow>
                (\<forall>x \<in> set results. \<exists>r. x = Parsed r \<and> ParseResult_invariant r)))"
proof (intro conjI allI impI)
  fix r assume "fst (parse env path strategy use_api w) = Inr r"
  then show "ParseResult_invariant r" by (rule parse_invariant)
next
  fix found assume "file_exists env = Inr found"
  from parse_returns_when_exists_returns [OF this, of path strategy use_api w]
  obtain r where "fst (parse env path strategy use_api w) = Inr r" by blast
  with parse_invariant [OF this]
  show "\<exists>r. fst (parse env path strategy use_api w) = Inr r \<and> ParseResult_invariant r" by blast
next
  fix results r
  assume "parse_batch envs cancelled file_paths strategy' use_api' max_concurrent schedule w'
           = Some (Inr results)"
    and "Parsed r \<in> set results"
  with parse_batch_results [of envs cancelled file_paths strategy' use_api' max_concurrent
         schedule w' results]
  obtain i where "expected_slot envs cancelled file_paths strategy' use_api' w' i = Parsed r"
    by auto
  then show "ParseResult_invariant r" by (rule expected_slot_invariant)
next
  fix results
  assume b: "parse_batch envs cancelled file_paths strategy' use_api' max_concurrent schedule w'
           = Some (Inr results)"
    and nc: "\<forall>i < length file_paths. \<not> cancelled i"
  show "\<forall>x \<in> set results. \<exists>r. x = Parsed r \<and> ParseResult_invariant r"
  proof
    fix x assume "x \<in> set results"
    with parse_batch_results [OF b]
    obtain i where i: "i < length file_paths"
      and x: "x = expected_slot envs cancelled file_paths strategy' use_api' w' i" by auto
    from i nc have "\<not> cancelled i" by simp
    then obtain r where r: "x = Parsed r"
      unfolding x
      by (cases "fst (parse (envs i) (file_paths ! i) strategy' use_api' w')")
         (simp_all add: expected_slot_def task_outcome_def batch_slot_def)
    with x have "expected_slot envs cancelled file_paths strategy' use_api' w' i = Parsed r"
      by simp
    from expected_slot_invariant [OF this] r
    show "\<exists>r. x = Parsed r \<and> ParseResult_invariant r" by blast
  qed
qed

theorem parse_result_invariant_witness:
  "(\<exists>r. fst (parse timeout_env ''a.pdf'' HI_RES True start_world) = Inr r
        \<and> ParseResult_invariant r)
   \<and> (\<exists>results. parse_batch three_envs nobody three_files HI_RES True 5 [2, 0, 1] start_world
                   = Some (Inr results)
         \<and> length results = 3
         \<and> (\<exists>r. results ! 0 = Parsed r \<and> ParseResult_invariant r)
         \<and> (\<exists>r. results ! 1 = Parsed r \<and> ParseResult_invariant r)
         \<and> (\<exists>r. results ! 2 = Parsed r \<and> ParseResult_invariant r))"
proof -
  have fe: "file_exists timeout_env = Inr True"
    by (simp add: timeout_env_def page_env_def)
  have v: "valid_schedule (length three_files) [2, 0, 1]"
    by (simp add: valid_schedule_def three_files_def)
  have nc: "\<forall>i < length three_files. \<not> nobody i" by (simp add: nobody_def)
  from parse_batch_value [OF _ v, of 5 three_envs nobody HI_RES True start_world]
  obtain results where r:
    "parse_batch three_envs nobody three_files HI_RES True 5 [2, 0, 1] start_world
       = Some (Inr results)"
    "length results = 3"
    by (simp add: three_files_def)
  from parse_result_invariant [of timeout_env "''a.pdf''" HI_RES True start_world
         three_envs nobody three_files HI_RES True 5 "[2, 0, 1]" start_world] fe r(1) nc
  have p: "\<exists>r. fst (parse timeout_env ''a.pdf'' HI_RES True start_world) = Inr r
               \<and> ParseResult_invariant r"
    and b: "\<forall>x \<in> set results. \<exists>r. x = Parsed r \<and> ParseResult_invariant r" by blast+
  from r(2) have "results ! 0 \<in> set results" "results ! 1 \<in> set results"
    "results ! 2 \<in> set results" by simp_all
  with b have "\<exists>r. results ! 0 = Parsed r \<and> ParseResult_invariant r"
    "\<exists>r. results ! 1 = Parsed r \<and> ParseResult_invariant r"
    "\<exists>r. results ! 2 = Parsed r \<and> ParseResult_invariant r" by blast+
  with p r show ?thesis by blast
qed

section \<open>Properties of the extractors\<close>

lemma str_nat_120: "str_nat 120 = ''120''"
  by code_simp

lemma claude_extract_body_returns:
  "\<exists>r. claude_extract_body ex service doc prompt qt qn w
        = (Inr r, (acquire (ex_min_interval ex) w)
                    \<lparr> w_clock := w_clock (acquire (ex_min_interval ex) w)
                                   + snd (service (w_requests w)
                                       [prompt @ [CHR 0x0A, CHR 0x0A] @ ''Document text:''
                                        @ [CHR 0x0A, CHR 0x0A] @ doc]),
                      w_requests := w_requests w + 1 \<rparr>)"
  by (auto simp: claude_extract_body_def Let_def acquire_requests
           split: sum.splits py_exception.splits)

lemma openai_extract_body_returns:
  "\<exists>r. openai_extract_body ex service doc prompt qt qn w
        = (Inr r, (acquire (ex_min_interval ex) w)
                    \<lparr> w_clock := w_clock (acquire (ex_min_interval ex) w)
                                   + snd (service (w_requests w)
                                       [prompt, ''Document text:'' @ [CHR 0x0A, CHR 0x0A] @ doc]),
                      w_requests := w_requests w + 1 \<rparr>)"
  by (auto simp: openai_extract_body_def Let_def acquire_requests
           split: sum.splits py_exception.splits)

lemma claude_extract_single_attempt:
  "claude_extract ex service doc prompt qt qn w = claude_extract_body ex service doc prompt qt qn w"
proof -
  from claude_extract_body_returns [of ex service doc prompt qt qn w]
  obtain r w' where b: "claude_extract_body ex service doc prompt qt qn w = (Inr r, w')" by blast
  have "retry_attempts 2 1 any_exception (claude_extract_body ex service doc prompt qt qn) w = (Inr r, w')"
    using b by (rule retry_attempts_returns)
  with b show ?thesis by (simp add: claude_extract_def retry3_def)
qed

lemma openai_extract_single_attempt:
  "openai_extract ex service doc prompt qt qn w = openai_extract_body ex service doc prompt qt qn w"
proof -
  from openai_extract_body_returns [of ex service doc prompt qt qn w]
  obtain r w' where b: "openai_extract_body ex service doc prompt qt qn w = (Inr r, w')" by blast
  have "retry_attempts 2 1 any_exception (openai_extract_body ex service doc prompt qt qn) w = (Inr r, w')"
    using b by (rule retry_attempts_returns)
  with b show ?thesis by (simp add: openai_extract_def retry3_def)
qed

lemma extract_requests_once:
  "w_requests (snd (claude_extract ex service doc prompt qt qn w)) = w_requests w + 1"
  "w_requests (snd (openai_extract ex service doc prompt qt qn w)) = w_requests w + 1"
  using claude_extract_body_returns [of ex service doc prompt qt qn w]
        openai_extract_body_returns [of ex service doc prompt qt qn w]
  by (auto simp: claude_extract_single_attempt openai_extract_single_attempt)

text \<open>
  Every result an extractor returns satisfies the invariant of \<open>ExtractionResult\<close>:
  the two handlers build their result from the defaults, with no data and zero
  token counts.
\<close>

lemma failed_extraction_invariant:
  "ExtractionResult_invariant (failed_extraction ex qt qn elapsed msg)"
  by (simp add: ExtractionResult_invariant_def failed_extraction_def ExtractionResult_default_def)

lemma claude_extract_invariant:
  "claude_extract ex service doc prompt qt qn w = (Inr r, w') \<Longrightarrow> ExtractionResult_invariant r"
  unfolding claude_extract_single_attempt
  by (auto simp: claude_extract_body_def Let_def failed_extraction_invariant
           split: sum.splits py_exception.splits)
     (simp_all add: ExtractionResult_invariant_def)

lemma openai_extract_invariant:
  "openai_extract ex service doc prompt qt qn w = (Inr r, w') \<Longrightarrow> ExtractionResult_invariant r"
  unfolding openai_extract_single_attempt
  by (auto simp: openai_extract_body_def Let_def failed_extraction_invariant
           split: sum.splits py_exception.splits)
     (simp_all add: ExtractionResult_invariant_def)

text \<open>
  C1 (the code at a failing input): the backend times out on the first request and
  would answer the second. Both extractors return the error result of the first
  attempt (\<open>Timeout after 120s\<close>, zero tokens, zero cost, 120 seconds elapsed) after
  exactly one request and with no backoff sleep: the exception handlers inside the
  body return a value, so the retry decorator never sees a failure to retry.
\<close>

theorem extract_timeout_not_retried:
  "claude_extract sonnet times_out_once ''text'' ''prompt'' 1 ''Basic'' start_world
     = (Inr ((ExtractionResult_default ''claude-sonnet-4-20250514'' 1 ''Basic'')
               \<lparr> extraction_time := 120, error := Some ''Timeout after 120s'' \<rparr>),
        \<lparr> w_clock = 220, w_last_request_time = 100, w_requests = 1 \<rparr>)
   \<and> openai_extract sonnet times_out_once ''text'' ''prompt'' 1 ''Basic'' start_world
     = (Inr ((ExtractionResult_default ''claude-sonnet-4-20250514'' 1 ''Basic'')
               \<lparr> extraction_time := 120, error := Some ''Timeout after 120s'' \<rparr>),
        \<lparr> w_clock = 220, w_last_request_time = 100, w_requests = 1 \<rparr>)
   \<and> fst (times_out_once 1 [''any'']) = Inr good_response"
  by (simp add: claude_extract_single_attempt claude_extract_body_def
        openai_extract_single_attempt openai_extract_body_def
        sonnet_def times_out_once_def start_world_def acquire_def wait_time_def
        failed_extraction_def str_nat_120 Let_def)

end
